theory Spec2Isabelle
  imports Main "HOL-Library.Sublist" "HOL-Library.Multiset"
begin

section \<open>The media store of PhotoGallery.jsx\<close>

text \<open>
  A shallow embedding of \<^verbatim>\<open>src/components/PhotoGallery.jsx\<close>. The component keeps a list
  of photo records and a list of album records in React state, the binary payloads in the
  IndexedDB object store "files", the photo records in the object store "photos", and the
  object URLs it has created in \<^verbatim>\<open>urlCache\<close>. Every handler is a function from the state
  before the call to the state after it; what the environment decides (the identifier
  \<^verbatim>\<open>generateId\<close> returns, the clock, whether an IndexedDB transaction commits) is an
  argument of the handler. A handler runs to its end before the next one starts. The
  copy of the album list in \<^verbatim>\<open>localStorage\<close> is not part of the model.

  Identifiers, dates and MIME types are ASCII texts and have the type \<open>string\<close>. The
  names of files, photos and albums and the search text are any JavaScript strings: lists
  of UTF-16 code units, a code unit being a natural number (below 65536).
\<close>

subsection \<open>String helpers of the JavaScript library\<close>

type_synonym ustring = "nat list"

text \<open>An ASCII or Latin-1 text as a list of code units.\<close>

definition units :: "string \<Rightarrow> ustring" where
  "units s = map of_char s"

text \<open>
  \<^verbatim>\<open>String.prototype.trim\<close> removes the white space and the line terminators of
  ECMAScript at both ends: U+0009 to U+000D, U+0020, U+00A0, U+1680, U+2000 to U+200A,
  U+2028, U+2029, U+202F, U+205F, U+3000 and U+FEFF.
\<close>

definition is_ws :: "nat \<Rightarrow> bool" where
  "is_ws c = (c \<in> {9, 10, 11, 12, 13, 32, 160, 5760, 8232, 8233, 8239, 8287, 12288, 65279} \<or>
              (8192 \<le> c \<and> c \<le> 8202))"

definition js_trim :: "ustring \<Rightarrow> ustring" where
  "js_trim s = rev (dropWhile is_ws (rev (dropWhile is_ws s)))"

text \<open>
  \<^verbatim>\<open>String.prototype.toLowerCase\<close> is the lower-casing of Unicode. It is not a change of
  one code unit at a time (a capital sigma becomes one letter at the end of a word and
  another elsewhere; U+0130 becomes two code units), and it is an argument \<open>lc\<close> of the
  functions that compute the view.

  \<^verbatim>\<open>s.startsWith(p)\<close>.
\<close>

fun startsWith :: "'a list \<Rightarrow> 'a list \<Rightarrow> bool" where
  "startsWith s [] = True"
| "startsWith [] (c # cs) = False"
| "startsWith (x # xs) (c # cs) = (x = c \<and> startsWith xs cs)"

text \<open>\<^verbatim>\<open>s.includes(t)\<close>: \<open>t\<close> occurs in \<open>s\<close> at some position.\<close>

fun includes_str :: "'a list \<Rightarrow> 'a list \<Rightarrow> bool" where
  "includes_str [] t = (t = [])"
| "includes_str (x # xs) t = (startsWith (x # xs) t \<or> includes_str xs t)"

text \<open>\<^verbatim>\<open>s.split("T")[0]\<close>: the part of \<open>s\<close> before the first \<open>T\<close>.\<close>

definition date_part :: "string \<Rightarrow> string" where
  "date_part s = takeWhile (\<lambda>c. c \<noteq> CHR ''T'') s"

subsection \<open>Numbers that may be NaN, and Array.prototype.sort\<close>

text \<open>
  \<^verbatim>\<open>new Date(x) - new Date(y)\<close> is a number, or NaN when one of the dates is invalid.
  \<open>None\<close> is NaN. The value of \<^verbatim>\<open>new Date(text)\<close> is an argument \<open>dv\<close> of the functions
  that sort: \<open>dv text\<close> is the time value, \<open>None\<close> for an invalid date.
\<close>

definition num_sub :: "int option \<Rightarrow> int option \<Rightarrow> int option" where
  "num_sub a b = (case a of None \<Rightarrow> None | Some x \<Rightarrow> (case b of None \<Rightarrow> None | Some y \<Rightarrow> Some (x - y)))"

text \<open>
  \<^verbatim>\<open>sort(cmp)\<close> is stable, puts \<open>a\<close> after \<open>b\<close> only when \<open>cmp a b > 0\<close>, and reads a
  NaN result as 0. The model is the stable insertion sort.
\<close>

definition cmp_gt :: "('a \<Rightarrow> 'a \<Rightarrow> int option) \<Rightarrow> 'a \<Rightarrow> 'a \<Rightarrow> bool" where
  "cmp_gt cmp a b = (case cmp a b of None \<Rightarrow> False | Some v \<Rightarrow> 0 < v)"

fun js_insert :: "('a \<Rightarrow> 'a \<Rightarrow> int option) \<Rightarrow> 'a \<Rightarrow> 'a list \<Rightarrow> 'a list" where
  "js_insert cmp x [] = [x]"
| "js_insert cmp x (y # ys) = (if cmp_gt cmp x y then y # js_insert cmp x ys else x # y # ys)"

definition js_sort :: "('a \<Rightarrow> 'a \<Rightarrow> int option) \<Rightarrow> 'a list \<Rightarrow> 'a list" where
  "js_sort cmp xs = foldr (js_insert cmp) xs []"

subsection \<open>Records\<close>

text \<open>A \<^verbatim>\<open>File\<close> chosen in the file input: its name, declared MIME type and size.\<close>

record jsfile =
  file_name :: ustring
  file_type :: string
  file_size :: nat

text \<open>
  A photo record (\<^verbatim>\<open>newPhoto\<close> in \<^verbatim>\<open>handleFileUpload\<close>). \<^verbatim>\<open>albums\<close> is always an array in the
  records this component creates, so \<^verbatim>\<open>photo.albums || []\<close> is \<^verbatim>\<open>photo.albums\<close>.
\<close>

record photo =
  photo_id :: string
  photo_name :: ustring
  fileId :: string
  photo_type :: string
  photo_size :: nat
  photo_date :: string
  photo_albums :: "string list"

text \<open>An album record; the default album has no \<^verbatim>\<open>date\<close>.\<close>

record album =
  album_id :: string
  album_name :: ustring
  isDefault :: bool
  album_date :: "string option"

text \<open>
  The state of the component: the React state the handlers read and write, whether
  \<^verbatim>\<open>dbRef.current\<close> is set, the two object stores, the URL cache, the object URLs revoked
  so far, and the messages passed to \<^verbatim>\<open>alert\<close> and \<^verbatim>\<open>console.error\<close>. State that only
  steers rendering (context menu, drag state, view mode, current photo) is left out.
\<close>

record state =
  photos :: "photo list"
  albums :: "album list"
  selectedView :: string
  selectedItems :: "string list"
  searchTerm :: ustring
  isRenamingItem :: "(string \<times> string) option"
  dbReady :: bool
  fileStore :: "string \<Rightarrow> jsfile option"
  photoStore :: "string \<Rightarrow> photo option"
  urlCache :: "string \<Rightarrow> string option"
  revoked :: "string list"
  alerts :: "string list"
  console :: "string list"

definition init :: state where
  "init = \<lparr>photos = [],
           albums = [\<lparr>album_id = ''all'', album_name = units ''Todas as Fotos'',
                      isDefault = True,
                      album_date = None\<rparr>],
           selectedView = ''all'', selectedItems = [], searchTerm = [],
           isRenamingItem = None, dbReady = False,
           fileStore = Map.empty, photoStore = Map.empty, urlCache = Map.empty,
           revoked = [], alerts = [], console = []\<rparr>"

text \<open>\<^verbatim>\<open>store.put(photo)\<close> for each photo of a list, key path \<^verbatim>\<open>id\<close>.\<close>

definition putAll :: "photo list \<Rightarrow> (string \<Rightarrow> photo option) \<Rightarrow> (string \<Rightarrow> photo option)" where
  "putAll ps m = foldl (\<lambda>m p. m(photo_id p \<mapsto> p)) m ps"

text \<open>\<^verbatim>\<open>store.delete(id)\<close> for each id of a list.\<close>

definition deleteAll :: "string list \<Rightarrow> (string \<Rightarrow> 'v option) \<Rightarrow> (string \<Rightarrow> 'v option)" where
  "deleteAll ids m = foldl (\<lambda>m i. m(i := None)) m ids"

subsection \<open>The album view\<close>

definition inSelectedAlbum :: "state \<Rightarrow> photo \<Rightarrow> bool" where
  "inSelectedAlbum s p = (selectedView s = ''all'' \<or> selectedView s \<in> set (photo_albums p))"

definition matchesSearch :: "(ustring \<Rightarrow> ustring) \<Rightarrow> state \<Rightarrow> photo \<Rightarrow> bool" where
  "matchesSearch lc s p =
     (searchTerm s = [] \<or> includes_str (lc (photo_name p)) (lc (searchTerm s)))"

definition filteredPhotos :: "(ustring \<Rightarrow> ustring) \<Rightarrow> state \<Rightarrow> photo list" where
  "filteredPhotos lc s = filter (\<lambda>p. inSelectedAlbum s p \<and> matchesSearch lc s p) (photos s)"

text \<open>
  \<^verbatim>\<open>groupedPhotos\<close>: the object built by \<^verbatim>\<open>reduce\<close>, as the list of its keys with their
  arrays, in the order the keys were added.
\<close>

definition add_to_group :: "(string \<times> photo list) list \<Rightarrow> photo \<Rightarrow> (string \<times> photo list) list" where
  "add_to_group groups p =
     (let date = date_part (photo_date p)
      in if map_of groups date = None then groups @ [(date, [p])]
         else map (\<lambda>(k, v). if k = date then (k, v @ [p]) else (k, v)) groups)"

definition groupedPhotos :: "(ustring \<Rightarrow> ustring) \<Rightarrow> state \<Rightarrow> (string \<times> photo list) list" where
  "groupedPhotos lc s = foldl add_to_group [] (filteredPhotos lc s)"

definition sortedDates ::
  "(ustring \<Rightarrow> ustring) \<Rightarrow> (string \<Rightarrow> int option) \<Rightarrow> state \<Rightarrow> string list" where
  "sortedDates lc dv s = js_sort (\<lambda>a b. num_sub (dv b) (dv a)) (map fst (groupedPhotos lc s))"

text \<open>The albums of the side bar.\<close>

definition album_time :: "(string \<Rightarrow> int option) \<Rightarrow> album \<Rightarrow> int option" where
  "album_time dv a = (case album_date a of None \<Rightarrow> None | Some d \<Rightarrow> dv d)"

definition listedAlbums :: "(string \<Rightarrow> int option) \<Rightarrow> state \<Rightarrow> album list" where
  "listedAlbums dv s =
     js_sort (\<lambda>a b. num_sub (album_time dv b) (album_time dv a))
       (filter (\<lambda>a. \<not> isDefault a) (albums s))"

subsection \<open>The URL cache\<close>

text \<open>
  \<^verbatim>\<open>loadFileUrl\<close>. \<open>readOk\<close> says whether the read of the "files" store succeeds (the
  promise is rejected otherwise: the result \<open>None\<close>); \<open>newUrl\<close> is what
  \<^verbatim>\<open>URL.createObjectURL\<close> returns.
\<close>

definition loadFileUrl :: "bool \<Rightarrow> string \<Rightarrow> string \<Rightarrow> state \<Rightarrow> string option \<times> state" where
  "loadFileUrl readOk newUrl fid s =
     (if \<not> dbReady s \<or> fid = [] then (Some ''/placeholder.svg'', s)
      else case urlCache s fid of
        Some u \<Rightarrow> (Some u, s)
      | None \<Rightarrow>
          if \<not> readOk then (None, s)
          else (case fileStore s fid of
                  Some f \<Rightarrow> (Some newUrl, s\<lparr>urlCache := (urlCache s)(fid \<mapsto> newUrl)\<rparr>)
                | None \<Rightarrow> (Some ''/placeholder.svg'', s)))"

text \<open>One round of the \<^verbatim>\<open>forEach\<close> that clears the cache in \<^verbatim>\<open>handleDeletePhotos\<close>.\<close>

definition evict :: "string \<Rightarrow> state \<Rightarrow> state" where
  "evict i s =
     (case urlCache s i of
        None \<Rightarrow> s
      | Some u \<Rightarrow> s\<lparr>revoked := revoked s @ [u], urlCache := (urlCache s)(i := None)\<rparr>)"

subsection \<open>Upload\<close>

text \<open>
  What the environment gives one file of an upload: the file, the result of
  \<^verbatim>\<open>generateId()\<close>, the result of \<^verbatim>\<open>new Date().toISOString()\<close>, and which of the two
  writes fails, if any.
\<close>

datatype put_fault = NoFault | BlobFail | MetaFail

record upload =
  up_file :: jsfile
  up_id :: string
  up_now :: string
  up_fault :: put_fault

definition newPhoto :: "string \<Rightarrow> upload \<Rightarrow> photo" where
  "newPhoto view u =
     \<lparr>photo_id = up_id u,
      photo_name = file_name (up_file u),
      fileId = up_id u,
      photo_type = (if startsWith (file_type (up_file u)) ''video/'' then ''video'' else ''image''),
      photo_size = file_size (up_file u),
      photo_date = up_now u,
      photo_albums = (if view \<noteq> ''all'' then [''all''] @ [view] else [''all''])\<rparr>"

text \<open>
  The callback of \<^verbatim>\<open>files.map\<close>: the blob is written and its transaction awaited, then
  the record is written. The result is the record, or \<open>None\<close> when the promise is rejected.
\<close>

definition uploadFile :: "upload \<Rightarrow> state \<Rightarrow> photo option \<times> state" where
  "uploadFile u s =
     (case up_fault u of
        BlobFail \<Rightarrow> (None, s)
      | MetaFail \<Rightarrow> (None, s\<lparr>fileStore := (fileStore s)(up_id u \<mapsto> up_file u)\<rparr>)
      | NoFault \<Rightarrow>
          (Some (newPhoto (selectedView s) u),
           s\<lparr>fileStore := (fileStore s)(up_id u \<mapsto> up_file u),
             photoStore := (photoStore s)(up_id u \<mapsto> newPhoto (selectedView s) u)\<rparr>))"

text \<open>
  \<^verbatim>\<open>Promise.all(files.map(...))\<close>: every callback runs to its end, also after another one
  has been rejected.
\<close>

fun uploadAll :: "upload list \<Rightarrow> state \<Rightarrow> photo option list \<times> state" where
  "uploadAll [] s = ([], s)"
| "uploadAll (u # us) s =
     (case uploadFile u s of (r, s1) \<Rightarrow> (case uploadAll us s1 of (rs, s2) \<Rightarrow> (r # rs, s2)))"

fun somes :: "'a option list \<Rightarrow> 'a list" where
  "somes [] = []"
| "somes (None # rs) = somes rs"
| "somes (Some x # rs) = x # somes rs"

definition upload_failed :: "state \<Rightarrow> state" where
  "upload_failed s =
     s\<lparr>console := console s @ [''Error uploading files:''],
       alerts := alerts s @ [''Failed to upload files. Please try again.'']\<rparr>"

text \<open>\<^verbatim>\<open>handleFileUpload\<close>; \<open>initOk\<close> says whether \<^verbatim>\<open>initDB()\<close> succeeds when it is called.\<close>

definition handleFileUpload :: "bool \<Rightarrow> upload list \<Rightarrow> state \<Rightarrow> state" where
  "handleFileUpload initOk files s =
     (if files = [] then s
      else if \<not> dbReady s \<and> \<not> initOk then upload_failed s
      else case uploadAll files (s\<lparr>dbReady := True\<rparr>) of
        (rs, s1) \<Rightarrow>
          if None \<in> set rs then upload_failed s1
          else s1\<lparr>photos := photos s1 @ somes rs\<rparr>)"

subsection \<open>Delete\<close>

datatype del_fault = DelOk | FilesTxFail | PhotosTxFail

definition delete_failed :: "state \<Rightarrow> state" where
  "delete_failed s =
     s\<lparr>console := console s @ [''Error deleting photos:''],
       alerts := alerts s @ [''Failed to delete photos. Please try again.'']\<rparr>"

definition handleDeletePhotos :: "del_fault \<Rightarrow> string list \<Rightarrow> state \<Rightarrow> state" where
  "handleDeletePhotos flt photoIds s =
     (if \<not> dbReady s then s
      else case flt of
        FilesTxFail \<Rightarrow> delete_failed s
      | PhotosTxFail \<Rightarrow> delete_failed (s\<lparr>fileStore := deleteAll photoIds (fileStore s)\<rparr>)
      | DelOk \<Rightarrow>
          (fold evict photoIds
             (s\<lparr>fileStore := deleteAll photoIds (fileStore s),
                photoStore := deleteAll photoIds (photoStore s)\<rparr>))
          \<lparr>photos := filter (\<lambda>p. photo_id p \<notin> set photoIds) (photos s),
           selectedItems := []\<rparr>)"

subsection \<open>Albums\<close>

text \<open>
  In the handlers below \<open>fault\<close> says that the IndexedDB transaction throws; it also throws
  when \<^verbatim>\<open>dbRef.current\<close> is not set.
\<close>

definition handleDeleteAlbum :: "bool \<Rightarrow> string \<Rightarrow> state \<Rightarrow> state" where
  "handleDeleteAlbum fault albumId s =
     (if albumId = ''all'' then s
      else
        let updatedPhotos =
              map (\<lambda>p. p\<lparr>photo_albums := filter (\<lambda>i. i \<noteq> albumId) (photo_albums p)\<rparr>) (photos s);
            s1 = s\<lparr>albums := filter (\<lambda>a. album_id a \<noteq> albumId) (albums s)\<rparr>;
            s2 = (if \<not> dbReady s \<or> fault
                  then s1\<lparr>console := console s1 @ [''Error updating photos after album deletion:'']\<rparr>
                  else s1\<lparr>photoStore := putAll updatedPhotos (photoStore s1)\<rparr>);
            s3 = s2\<lparr>photos := updatedPhotos\<rparr>
        in if selectedView s = albumId then s3\<lparr>selectedView := ''all''\<rparr> else s3)"

text \<open>The write of \<^verbatim>\<open>photoToUpdate\<close>, when \<^verbatim>\<open>find\<close> returns a record.\<close>

definition putFound :: "string \<Rightarrow> photo list \<Rightarrow> (string \<Rightarrow> photo option) \<Rightarrow> (string \<Rightarrow> photo option)" where
  "putFound photoId updatedPhotos m =
     (case find (\<lambda>p. photo_id p = photoId) updatedPhotos of
        None \<Rightarrow> m
      | Some photoToUpdate \<Rightarrow> m(photo_id photoToUpdate \<mapsto> photoToUpdate))"

definition handleAddToAlbum :: "bool \<Rightarrow> string \<Rightarrow> string \<Rightarrow> state \<Rightarrow> state" where
  "handleAddToAlbum fault photoId albumId s =
     (if albumId = ''all'' then s
      else
        let updatedPhotos =
              map (\<lambda>p. if photo_id p = photoId \<and> albumId \<notin> set (photo_albums p)
                       then p\<lparr>photo_albums := photo_albums p @ [albumId]\<rparr> else p) (photos s)
        in if \<not> dbReady s \<or> fault
           then s\<lparr>console := console s @ [''Error adding photo to album:'']\<rparr>
           else s\<lparr>photoStore := putFound photoId updatedPhotos (photoStore s),
                  photos := updatedPhotos\<rparr>)"

definition handleRemoveFromAlbum :: "bool \<Rightarrow> string \<Rightarrow> string \<Rightarrow> state \<Rightarrow> state" where
  "handleRemoveFromAlbum fault photoId albumId s =
     (if albumId = ''all'' then s
      else
        let updatedPhotos =
              map (\<lambda>p. if photo_id p = photoId
                       then p\<lparr>photo_albums := filter (\<lambda>i. i \<noteq> albumId) (photo_albums p)\<rparr>
                       else p) (photos s)
        in if \<not> dbReady s \<or> fault
           then s\<lparr>console := console s @ [''Error removing photo from album:'']\<rparr>
           else s\<lparr>photoStore := putFound photoId updatedPhotos (photoStore s),
                  photos := updatedPhotos\<rparr>)"

text \<open>
  \<^verbatim>\<open>handleCreateAlbum\<close>; \<open>newId\<close> and \<open>now\<close> are the results of \<^verbatim>\<open>generateId()\<close> and
  \<^verbatim>\<open>new Date().toISOString()\<close>.
\<close>

definition handleCreateAlbum :: "bool \<Rightarrow> string \<Rightarrow> string \<Rightarrow> ustring \<Rightarrow> state \<Rightarrow> state" where
  "handleCreateAlbum fault newId now localAlbumName s =
     (if js_trim localAlbumName = [] then s
      else
        let newAlbum = \<lparr>album_id = newId, album_name = js_trim localAlbumName, isDefault = False,
                        album_date = Some now\<rparr>;
            s1 = s\<lparr>albums := albums s @ [newAlbum]\<rparr>
        in if selectedItems s = [] then s1
           else
             let updatedPhotos =
                   map (\<lambda>p. if photo_id p \<in> set (selectedItems s)
                            then p\<lparr>photo_albums := photo_albums p @ [album_id newAlbum]\<rparr>
                            else p) (photos s)
             in if \<not> dbReady s \<or> fault
                then s1\<lparr>console := console s1 @ [''Error adding photos to new album:''],
                        alerts := alerts s1 @ [''Failed to add photos to the new album. Please try again.'']\<rparr>
                else s1\<lparr>photoStore :=
                          putAll (filter (\<lambda>p. photo_id p \<in> set (selectedItems s)) updatedPhotos)
                            (photoStore s1),
                        photos := updatedPhotos,
                        selectedItems := []\<rparr>)"

subsection \<open>Rename\<close>

text \<open>
  \<^verbatim>\<open>handleRename\<close> of the rename dialog. The dialog is rendered only while
  \<^verbatim>\<open>isRenamingItem\<close> is set, so the handler does not run when it is \<open>None\<close>.
\<close>

definition handleRename :: "bool \<Rightarrow> ustring \<Rightarrow> state \<Rightarrow> state" where
  "handleRename fault localItemName s =
     (if js_trim localItemName = [] then s
      else case isRenamingItem s of
        None \<Rightarrow> s
      | Some (rid, rtype) \<Rightarrow>
          if rtype = ''photo'' then
            let updatedPhotos =
                  map (\<lambda>p. if photo_id p = rid then p\<lparr>photo_name := js_trim localItemName\<rparr> else p)
                    (photos s)
            in if \<not> dbReady s \<or> fault
               then s\<lparr>console := console s @ [''Error renaming photo:''],
                      alerts := alerts s @ [''Failed to rename photo. Please try again.'']\<rparr>
               else s\<lparr>photoStore := putFound rid updatedPhotos (photoStore s),
                      photos := updatedPhotos,
                      isRenamingItem := None\<rparr>
          else if rtype = ''album'' then
            s\<lparr>albums := map (\<lambda>a. if album_id a = rid then a\<lparr>album_name := js_trim localItemName\<rparr> else a)
                          (albums s),
              isRenamingItem := None\<rparr>
          else s\<lparr>isRenamingItem := None\<rparr>)"

subsection \<open>Sequences of operations\<close>

datatype op =
    FileUpload bool "upload list"
  | DeletePhotos del_fault "string list"
  | DeleteAlbum bool string
  | AddToAlbum bool string string
  | RemoveFromAlbum bool string string
  | Rename bool ustring
  | CreateAlbum bool string string ustring
  | LoadFileUrl bool string string
  | SetSelectedView string
  | SetSelectedItems "string list"
  | SetSearchTerm ustring
  | SetIsRenamingItem "(string \<times> string) option"

fun step :: "op \<Rightarrow> state \<Rightarrow> state" where
  "step (FileUpload initOk files) s = handleFileUpload initOk files s"
| "step (DeletePhotos flt ids) s = handleDeletePhotos flt ids s"
| "step (DeleteAlbum fault albumId) s = handleDeleteAlbum fault albumId s"
| "step (AddToAlbum fault photoId albumId) s = handleAddToAlbum fault photoId albumId s"
| "step (RemoveFromAlbum fault photoId albumId) s = handleRemoveFromAlbum fault photoId albumId s"
| "step (Rename fault name) s = handleRename fault name s"
| "step (CreateAlbum fault newId now name) s = handleCreateAlbum fault newId now name s"
| "step (LoadFileUrl readOk newUrl fid) s = snd (loadFileUrl readOk newUrl fid s)"
| "step (SetSelectedView v) s = s\<lparr>selectedView := v\<rparr>"
| "step (SetSelectedItems ids) s = s\<lparr>selectedItems := ids\<rparr>"
| "step (SetSearchTerm t) s = s\<lparr>searchTerm := t\<rparr>"
| "step (SetIsRenamingItem r) s = s\<lparr>isRenamingItem := r\<rparr>"

definition run :: "op list \<Rightarrow> state \<Rightarrow> state" where
  "run ops s = fold step ops s"

subsection \<open>Invariants of the store\<close>

text \<open>Every photo record, in memory and in the "photos" store, lists the album "all".\<close>

definition all_in_albums :: "state \<Rightarrow> bool" where
  "all_in_albums s \<longleftrightarrow>
     (\<forall>p\<in>set (photos s). ''all'' \<in> set (photo_albums p)) \<and>
     (\<forall>k p. photoStore s k = Some p \<longrightarrow> ''all'' \<in> set (photo_albums p))"

text \<open>
  Every photo record has its own id as \<^verbatim>\<open>fileId\<close>, and is stored in "photos" under that
  id.
\<close>

definition ids_agree :: "state \<Rightarrow> bool" where
  "ids_agree s \<longleftrightarrow>
     (\<forall>p\<in>set (photos s). fileId p = photo_id p) \<and>
     (\<forall>k p. photoStore s k = Some p \<longrightarrow> photo_id p = k \<and> fileId p = k)"

subsection \<open>What the claims speak of\<close>

text \<open>
  The store state: the photo and album records in memory and the contents of the two
  object stores.
\<close>

definition store_state ::
  "state \<Rightarrow> photo list \<times> album list \<times> (string \<Rightarrow> jsfile option) \<times> (string \<Rightarrow> photo option)" where
  "store_state s = (photos s, albums s, fileStore s, photoStore s)"

text \<open>
  "The name contains the search text as a case-insensitive substring": some run of
  consecutive code units of the name equals the search text up to the case of letters,
  \<open>cf\<close> taking each code unit to the one that stands for it whatever its case.
\<close>

definition ci_substring :: "(nat \<Rightarrow> nat) \<Rightarrow> ustring \<Rightarrow> ustring \<Rightarrow> bool" where
  "ci_substring cf t n \<longleftrightarrow> (\<exists>u. sublist u n \<and> map cf u = map cf t)"

text \<open>
  "\<open>a\<close> is as recent as \<open>b\<close>, or more recent": both time values are numbers, and that of
  \<open>b\<close> is not above that of \<open>a\<close>.
\<close>

definition newer_or_same :: "int option \<Rightarrow> int option \<Rightarrow> bool" where
  "newer_or_same a b \<longleftrightarrow> (\<exists>x y. a = Some x \<and> b = Some y \<and> y \<le> x)"

text \<open>The key under which \<^verbatim>\<open>groupedPhotos\<close> files a photo.\<close>

definition date_key :: "photo \<Rightarrow> string" where
  "date_key p = date_part (photo_date p)"

text \<open>
  The handlers return no value. What a handler tells its caller about a failure is a
  message passed to \<^verbatim>\<open>alert\<close> or to \<^verbatim>\<open>console.error\<close>: \<open>reports_error s s'\<close> says that the
  step from \<open>s\<close> to \<open>s'\<close> has passed one.
\<close>

definition reports_error :: "state \<Rightarrow> state \<Rightarrow> bool" where
  "reports_error s s' \<longleftrightarrow> alerts s' \<noteq> alerts s \<or> console s' \<noteq> console s"

section \<open>Properties\<close>

subsection \<open>The object stores\<close>

lemma startsWith_prefix: "startsWith s p \<longleftrightarrow> prefix p s"
  by (induction s p rule: startsWith.induct) auto

lemma putAll_Some:
  "putAll ps m k = Some p \<Longrightarrow> (p \<in> set ps \<and> photo_id p = k) \<or> m k = Some p"
  unfolding putAll_def
  by (induction ps rule: rev_induct) (auto split: if_splits)

lemma putFound_Some:
  "putFound i ps m k = Some p \<Longrightarrow> (p \<in> set ps \<and> photo_id p = k) \<or> m k = Some p"
  by (auto simp: putFound_def find_Some_iff split: option.splits if_splits)

lemma deleteAll_apply: "deleteAll ids m k = (if k \<in> set ids then None else m k)"
  unfolding deleteAll_def
  by (induction ids arbitrary: m) auto

lemma evict_photos [simp]: "photos (evict i s) = photos s"
  by (simp add: evict_def split: option.splits)

lemma evict_photoStore [simp]: "photoStore (evict i s) = photoStore s"
  by (simp add: evict_def split: option.splits)

lemma evict_fileStore [simp]: "fileStore (evict i s) = fileStore s"
  by (simp add: evict_def split: option.splits)

lemma evict_urlCache: "urlCache (evict i s) = (urlCache s)(i := None)"
  by (auto simp: evict_def split: option.splits)

lemma fold_evict_photos [simp]: "photos (fold evict ids s) = photos s"
  by (induction ids arbitrary: s) simp_all

lemma fold_evict_photoStore [simp]: "photoStore (fold evict ids s) = photoStore s"
  by (induction ids arbitrary: s) simp_all

lemma fold_evict_fileStore [simp]: "fileStore (fold evict ids s) = fileStore s"
  by (induction ids arbitrary: s) simp_all

lemma fold_evict_urlCache:
  "urlCache (fold evict ids s) k = (if k \<in> set ids then None else urlCache s k)"
  by (induction ids arbitrary: s) (simp_all add: evict_urlCache)

subsection \<open>The upload of a list of files\<close>

lemma uploadAll_Cons:
  "uploadAll (u # us) s =
     (fst (uploadFile u s) # fst (uploadAll us (snd (uploadFile u s))),
      snd (uploadAll us (snd (uploadFile u s))))"
  by (simp split: prod.splits)

lemma uploadFile_view [simp]: "selectedView (snd (uploadFile u s)) = selectedView s"
  by (simp add: uploadFile_def split: put_fault.splits)

lemma uploadFile_photos [simp]: "photos (snd (uploadFile u s)) = photos s"
  by (simp add: uploadFile_def split: put_fault.splits)

lemma uploadFile_fst:
  "fst (uploadFile u s) =
     (if up_fault u = NoFault then Some (newPhoto (selectedView s) u) else None)"
  by (simp add: uploadFile_def split: put_fault.splits)

lemma uploadAll_fst:
  "fst (uploadAll us s) =
     map (\<lambda>u. if up_fault u = NoFault then Some (newPhoto (selectedView s) u) else None) us"
  by (induction us arbitrary: s)
    (simp_all add: uploadAll_Cons uploadFile_fst del: uploadAll.simps(2))

lemma uploadAll_photos [simp]: "photos (snd (uploadAll us s)) = photos s"
  by (induction us arbitrary: s) (simp_all add: uploadAll_Cons del: uploadAll.simps(2))

lemma somes_set: "x \<in> set (somes rs) \<longleftrightarrow> Some x \<in> set rs"
  by (induction rs rule: somes.induct) auto

subsection \<open>The album "all" is never lost\<close>

lemma all_in_albums_init: "all_in_albums init"
  by (simp add: all_in_albums_def init_def)

lemma uploadFile_all: "all_in_albums s \<Longrightarrow> all_in_albums (snd (uploadFile u s))"
  by (auto simp: all_in_albums_def uploadFile_def newPhoto_def split: put_fault.splits)

lemma uploadAll_all: "all_in_albums s \<Longrightarrow> all_in_albums (snd (uploadAll us s))"
  by (induction us arbitrary: s)
    (simp_all add: uploadAll_Cons uploadFile_all del: uploadAll.simps(2))

lemma handleFileUpload_all:
  assumes "all_in_albums s"
  shows "all_in_albums (handleFileUpload initOk files s)"
proof -
  obtain rs s1 where u: "uploadAll files (s\<lparr>dbReady := True\<rparr>) = (rs, s1)"
    by force
  have "all_in_albums (s\<lparr>dbReady := True\<rparr>)"
    using assms by (simp add: all_in_albums_def)
  from uploadAll_all [OF this, of files] u have s1: "all_in_albums s1"
    by simp
  have rs: "rs = map (\<lambda>u. if up_fault u = NoFault then Some (newPhoto (selectedView s) u) else None) files"
    using uploadAll_fst [of files "s\<lparr>dbReady := True\<rparr>"] u by simp
  have "\<forall>p\<in>set (somes rs). ''all'' \<in> set (photo_albums p)"
    by (auto simp: somes_set rs newPhoto_def split: if_splits)
  then have ok: "all_in_albums (s1\<lparr>photos := photos s1 @ somes rs\<rparr>)"
    using s1 by (auto simp: all_in_albums_def)
  have bad: "all_in_albums (upload_failed s1)" "all_in_albums (upload_failed s)"
    using s1 assms by (simp_all add: all_in_albums_def upload_failed_def)
  show ?thesis
    using assms ok bad u by (simp add: handleFileUpload_def)
qed

lemma handleDeletePhotos_all:
  "all_in_albums s \<Longrightarrow> all_in_albums (handleDeletePhotos flt ids s)"
  by (auto simp: all_in_albums_def handleDeletePhotos_def delete_failed_def deleteAll_apply
      split: del_fault.splits if_splits)

lemma handleDeleteAlbum_all:
  "all_in_albums s \<Longrightarrow> all_in_albums (handleDeleteAlbum fault a s)"
  by (auto simp: all_in_albums_def handleDeleteAlbum_def Let_def dest!: putAll_Some)

lemma handleAddToAlbum_all:
  "all_in_albums s \<Longrightarrow> all_in_albums (handleAddToAlbum fault i a s)"
  by (auto simp: all_in_albums_def handleAddToAlbum_def Let_def dest!: putFound_Some
      split: if_splits)

lemma handleRemoveFromAlbum_all:
  "all_in_albums s \<Longrightarrow> all_in_albums (handleRemoveFromAlbum fault i a s)"
  by (auto simp: all_in_albums_def handleRemoveFromAlbum_def Let_def dest!: putFound_Some
      split: if_splits)

lemma handleRename_all:
  "all_in_albums s \<Longrightarrow> all_in_albums (handleRename fault n s)"
  by (auto simp: all_in_albums_def handleRename_def Let_def dest!: putFound_Some
      split: if_splits option.splits)

lemma handleCreateAlbum_all:
  "all_in_albums s \<Longrightarrow> all_in_albums (handleCreateAlbum fault i d n s)"
  by (auto simp: all_in_albums_def handleCreateAlbum_def Let_def dest!: putAll_Some
      split: if_splits)

lemma loadFileUrl_all:
  "all_in_albums s \<Longrightarrow> all_in_albums (snd (loadFileUrl r u f s))"
  by (auto simp: all_in_albums_def loadFileUrl_def split: if_splits option.splits)

lemma step_all: "all_in_albums s \<Longrightarrow> all_in_albums (step x s)"
  by (cases x)
    (simp_all add: handleFileUpload_all handleDeletePhotos_all handleDeleteAlbum_all
      handleAddToAlbum_all handleRemoveFromAlbum_all handleRename_all handleCreateAlbum_all
      loadFileUrl_all,
     simp_all add: all_in_albums_def)

text \<open>
  C2. From a state in which every photo record lists the album "all", every sequence of
  operations (uploads, deletions, renames, album creation and deletion, adding to and
  removing from an album, with or without storage failures) leads to a state in which
  every photo record, in memory and in the "photos" store, still lists "all": a record
  is created with "all", \<^verbatim>\<open>handleRemoveFromAlbum\<close> and \<^verbatim>\<open>handleDeleteAlbum\<close> return at
  once for "all", and no other handler removes an album id.
\<close>

theorem all_album_kept:
  assumes "all_in_albums s"
  shows "all_in_albums (run ops s)"
  using assms unfolding run_def
  by (induction ops arbitrary: s) (simp_all add: step_all)

theorem all_album_kept_witness:
  "(let ops =
     [FileUpload True
        [\<lparr>up_file = \<lparr>file_name = units ''a.png'', file_type = ''image/png'', file_size = 3\<rparr>,
          up_id = ''id-1'', up_now = ''2024-01-02T10:00:00.000Z'', up_fault = NoFault\<rparr>],
      SetSelectedItems [''id-1''],
      CreateAlbum False ''id-2'' ''2024-01-03T10:00:00.000Z'' (units ''Trip''),
      RemoveFromAlbum False ''id-1'' ''all'',
      DeleteAlbum False ''all'']
    in all_in_albums init \<and>
       map photo_albums (photos (run ops init)) = [[''all'', ''id-2'']] \<and>
       all_in_albums (run ops init))"
proof -
  define ops where "ops =
     [FileUpload True
        [\<lparr>up_file = \<lparr>file_name = units ''a.png'', file_type = ''image/png'', file_size = 3\<rparr>,
          up_id = ''id-1'', up_now = ''2024-01-02T10:00:00.000Z'', up_fault = NoFault\<rparr>],
      SetSelectedItems [''id-1''],
      CreateAlbum False ''id-2'' ''2024-01-03T10:00:00.000Z'' (units ''Trip''),
      RemoveFromAlbum False ''id-1'' ''all'',
      DeleteAlbum False ''all'']"
  have a: "all_in_albums init"
    by (simp add: all_in_albums_def init_def)
  have b: "map photo_albums (photos (run ops init)) = [[''all'', ''id-2'']]"
    unfolding ops_def
    by (simp add: run_def init_def handleFileUpload_def uploadFile_def newPhoto_def Let_def
        handleCreateAlbum_def handleRemoveFromAlbum_def handleDeleteAlbum_def js_trim_def units_def
        is_ws_def)
  have c: "all_in_albums (run ops init)"
    by (rule all_album_kept [OF a])
  from a b c show ?thesis
    unfolding Let_def ops_def by blast
qed

lemma uploadFile_alerts [simp]: "alerts (snd (uploadFile u s)) = alerts s"
  by (simp add: uploadFile_def split: put_fault.splits)

lemma uploadAll_alerts [simp]: "alerts (snd (uploadAll us s)) = alerts s"
  by (induction us arbitrary: s) (simp_all add: uploadAll_Cons del: uploadAll.simps(2))

lemma uploadFile_fileStore:
  "fileStore (snd (uploadFile u s)) =
     (if up_fault u = BlobFail then fileStore s else (fileStore s)(up_id u \<mapsto> up_file u))"
  by (simp add: uploadFile_def split: put_fault.splits)

lemma uploadFile_photoStore:
  "photoStore (snd (uploadFile u s)) =
     (if up_fault u = NoFault then (photoStore s)(up_id u \<mapsto> newPhoto (selectedView s) u)
      else photoStore s)"
  by (simp add: uploadFile_def split: put_fault.splits)

lemma uploadAll_fileStore_other:
  "k \<notin> up_id ` set us \<Longrightarrow> fileStore (snd (uploadAll us s)) k = fileStore s k"
  by (induction us arbitrary: s)
    (simp_all add: uploadAll_Cons uploadFile_fileStore del: uploadAll.simps(2))

lemma uploadAll_photoStore_other:
  "k \<notin> up_id ` set us \<Longrightarrow> photoStore (snd (uploadAll us s)) k = photoStore s k"
  by (induction us arbitrary: s)
    (simp_all add: uploadAll_Cons uploadFile_photoStore del: uploadAll.simps(2))

lemma uploadAll_fileStore:
  "distinct (map up_id us) \<Longrightarrow> u \<in> set us \<Longrightarrow>
   fileStore (snd (uploadAll us s)) (up_id u) =
     (if up_fault u = BlobFail then fileStore s (up_id u) else Some (up_file u))"
proof (induction us arbitrary: s)
  case Nil
  then show ?case by simp
next
  case (Cons v us)
  show ?case
  proof (cases "u = v")
    case True
    with Cons.prems have "up_id u \<notin> up_id ` set us" by auto
    then show ?thesis
      using True by (simp add: uploadAll_Cons uploadAll_fileStore_other uploadFile_fileStore
          del: uploadAll.simps(2))
  next
    case False
    with Cons.prems have u: "u \<in> set us" "up_id u \<noteq> up_id v" "distinct (map up_id us)"
      by (auto simp: image_iff)
    show ?thesis
      using Cons.IH [OF u(3) u(1)] u(2)
      by (simp add: uploadAll_Cons uploadFile_fileStore del: uploadAll.simps(2))
  qed
qed

lemma uploadAll_photoStore:
  "distinct (map up_id us) \<Longrightarrow> u \<in> set us \<Longrightarrow>
   photoStore (snd (uploadAll us s)) (up_id u) =
     (if up_fault u = NoFault then Some (newPhoto (selectedView s) u)
      else photoStore s (up_id u))"
proof (induction us arbitrary: s)
  case Nil
  then show ?case by simp
next
  case (Cons v us)
  show ?case
  proof (cases "u = v")
    case True
    with Cons.prems have "up_id u \<notin> up_id ` set us" by auto
    then show ?thesis
      using True by (simp add: uploadAll_Cons uploadAll_photoStore_other uploadFile_photoStore
          del: uploadAll.simps(2))
  next
    case False
    with Cons.prems have u: "u \<in> set us" "up_id u \<noteq> up_id v" "distinct (map up_id us)"
      by (auto simp: image_iff)
    show ?thesis
      using Cons.IH [OF u(3) u(1)] u(2)
      by (simp add: uploadAll_Cons uploadFile_photoStore del: uploadAll.simps(2))
  qed
qed

lemma somes_map_if:
  "somes (map (\<lambda>u. if P u then Some (f u) else None) us) = map f (filter P us)"
  by (induction us) simp_all

text \<open>
  \<^verbatim>\<open>handleFileUpload\<close> on a list of files that is not empty, with a database: the writes
  of every file are made; the new records reach the list in memory only when no write
  failed.
\<close>

lemma handleFileUpload_unfold:
  assumes "files \<noteq> []" and "dbReady s \<or> initOk"
  shows "handleFileUpload initOk files s =
     (let s1 = snd (uploadAll files (s\<lparr>dbReady := True\<rparr>))
      in if \<exists>u\<in>set files. up_fault u \<noteq> NoFault then upload_failed s1
         else s1\<lparr>photos := photos s @ map (newPhoto (selectedView s)) files\<rparr>)"
proof -
  obtain rs s1 where u: "uploadAll files (s\<lparr>dbReady := True\<rparr>) = (rs, s1)"
    by force
  have rs: "rs = map (\<lambda>u. if up_fault u = NoFault then Some (newPhoto (selectedView s) u) else None) files"
    using uploadAll_fst [of files "s\<lparr>dbReady := True\<rparr>"] u by simp
  have n: "None \<in> set rs \<longleftrightarrow> (\<exists>u\<in>set files. up_fault u \<noteq> NoFault)"
    by (auto simp: rs)
  have m: "\<not> (\<exists>u\<in>set files. up_fault u \<noteq> NoFault) \<Longrightarrow>
      somes rs = map (newPhoto (selectedView s)) files"
    unfolding rs somes_map_if by (simp add: filter_id_conv)
  have p: "photos s1 = photos s"
    using uploadAll_photos [of files "s\<lparr>dbReady := True\<rparr>"] u by simp
  show ?thesis
    using assms u n m p by (auto simp: handleFileUpload_def Let_def)
qed

subsection \<open>A failed metadata write leaves the blob behind\<close>

text \<open>
  C1, as the claim states it, fails: when the blob of a file is written and the write of
  its record fails, \<^verbatim>\<open>handleFileUpload\<close> reports the failure and deletes nothing. After
  the upload of one such file into the empty store, the "files" store holds the blob and
  the "photos" store holds no record for it.
\<close>

theorem upload_leaves_orphan_blob:
  "fileStore (handleFileUpload True
      [\<lparr>up_file = \<lparr>file_name = units ''a.png'', file_type = ''image/png'', file_size = 3\<rparr>,
        up_id = ''id-1'', up_now = ''2024-01-02T10:00:00.000Z'', up_fault = MetaFail\<rparr>] init) ''id-1''
     = Some \<lparr>file_name = units ''a.png'', file_type = ''image/png'', file_size = 3\<rparr> \<and>
   photoStore (handleFileUpload True
      [\<lparr>up_file = \<lparr>file_name = units ''a.png'', file_type = ''image/png'', file_size = 3\<rparr>,
        up_id = ''id-1'', up_now = ''2024-01-02T10:00:00.000Z'', up_fault = MetaFail\<rparr>] init) ''id-1''
     = None"
  by (simp add: handleFileUpload_def uploadFile_def upload_failed_def init_def)

text \<open>
  C1, amended. For an upload whose generated ids are distinct, and a file of it whose id
  is not yet a key of either store: afterwards the "files" store holds the blob unless
  the blob write failed, and the "photos" store holds the record exactly when both writes
  succeeded. So a failed metadata write leaves no partial record; the blob written before
  it stays (nothing is rolled back). When a write of the file failed, the list in memory
  is unchanged and the failure is reported with an alert.
\<close>

theorem upload_write_outcomes:
  assumes "files \<noteq> []" and "dbReady s \<or> initOk" and "distinct (map up_id files)"
    and "u \<in> set files"
    and "fileStore s (up_id u) = None" and "photoStore s (up_id u) = None"
  shows "let s' = handleFileUpload initOk files s in
     fileStore s' (up_id u) = (if up_fault u = BlobFail then None else Some (up_file u)) \<and>
     photoStore s' (up_id u) =
       (if up_fault u = NoFault then Some (newPhoto (selectedView s) u) else None) \<and>
     (up_fault u \<noteq> NoFault \<longrightarrow>
        photos s' = photos s \<and>
        alerts s' = alerts s @ [''Failed to upload files. Please try again.''])"
proof -
  let ?s1 = "snd (uploadAll files (s\<lparr>dbReady := True\<rparr>))"
  have f: "fileStore ?s1 (up_id u) = (if up_fault u = BlobFail then None else Some (up_file u))"
    using uploadAll_fileStore [OF assms(3,4), of "s\<lparr>dbReady := True\<rparr>"] assms(5) by simp
  have p: "photoStore ?s1 (up_id u) =
       (if up_fault u = NoFault then Some (newPhoto (selectedView s) u) else None)"
    using uploadAll_photoStore [OF assms(3,4), of "s\<lparr>dbReady := True\<rparr>"] assms(6) by simp
  show ?thesis
    unfolding handleFileUpload_unfold [OF assms(1,2)] Let_def
    using f p assms(4) by (auto simp: upload_failed_def)
qed

theorem upload_write_outcomes_witness:
  "(let ok = \<lparr>up_file = \<lparr>file_name = units ''a.png'', file_type = ''image/png'', file_size = 3\<rparr>,
               up_id = ''id-1'', up_now = ''2024-01-02T10:00:00.000Z'', up_fault = NoFault\<rparr>;
        bad = \<lparr>up_file = \<lparr>file_name = units ''b.png'', file_type = ''image/png'', file_size = 4\<rparr>,
                up_id = ''id-2'', up_now = ''2024-01-02T10:00:01.000Z'', up_fault = MetaFail\<rparr>;
        s' = handleFileUpload True [ok, bad] init
    in fileStore s' ''id-2'' = Some (up_file bad) \<and> photoStore s' ''id-2'' = None \<and>
       photos s' = [] \<and> alerts s' = [''Failed to upload files. Please try again.''])"
proof -
  define ok where "ok = \<lparr>up_file = \<lparr>file_name = units ''a.png'', file_type = ''image/png'', file_size = 3\<rparr>,
               up_id = ''id-1'', up_now = ''2024-01-02T10:00:00.000Z'', up_fault = NoFault\<rparr>"
  define bad where "bad = \<lparr>up_file = \<lparr>file_name = units ''b.png'', file_type = ''image/png'', file_size = 4\<rparr>,
                up_id = ''id-2'', up_now = ''2024-01-02T10:00:01.000Z'', up_fault = MetaFail\<rparr>"
  have h: "[ok, bad] \<noteq> []" "dbReady init \<or> True" "distinct (map up_id [ok, bad])"
    "bad \<in> set [ok, bad]" "fileStore init (up_id bad) = None" "photoStore init (up_id bad) = None"
    by (simp_all add: ok_def bad_def init_def)
  have e: "up_id bad = ''id-2''" "up_fault bad = MetaFail" "photos init = []" "alerts init = []"
    by (simp_all add: bad_def init_def)
  from upload_write_outcomes [OF h] e
  have "fileStore (handleFileUpload True [ok, bad] init) ''id-2'' = Some (up_file bad) \<and>
      photoStore (handleFileUpload True [ok, bad] init) ''id-2'' = None \<and>
      photos (handleFileUpload True [ok, bad] init) = [] \<and>
      alerts (handleFileUpload True [ok, bad] init) = [''Failed to upload files. Please try again.'']"
    by (simp add: Let_def)
  then show ?thesis
    unfolding Let_def ok_def bad_def by blast
qed

subsection \<open>A photo record and its blob share one key\<close>

lemma ids_agree_init: "ids_agree init"
  by (simp add: ids_agree_def init_def)

lemma uploadFile_ids: "ids_agree s \<Longrightarrow> ids_agree (snd (uploadFile u s))"
  by (auto simp: ids_agree_def uploadFile_def newPhoto_def split: put_fault.splits if_splits)

lemma uploadAll_ids: "ids_agree s \<Longrightarrow> ids_agree (snd (uploadAll us s))"
  by (induction us arbitrary: s)
    (simp_all add: uploadAll_Cons uploadFile_ids del: uploadAll.simps(2))

lemma handleFileUpload_ids:
  assumes "ids_agree s"
  shows "ids_agree (handleFileUpload initOk files s)"
proof -
  obtain rs s1 where u: "uploadAll files (s\<lparr>dbReady := True\<rparr>) = (rs, s1)"
    by force
  have "ids_agree (s\<lparr>dbReady := True\<rparr>)"
    using assms by (simp add: ids_agree_def)
  from uploadAll_ids [OF this, of files] u have s1: "ids_agree s1"
    by simp
  have rs: "rs = map (\<lambda>u. if up_fault u = NoFault then Some (newPhoto (selectedView s) u) else None) files"
    using uploadAll_fst [of files "s\<lparr>dbReady := True\<rparr>"] u by simp
  have "\<forall>p\<in>set (somes rs). fileId p = photo_id p"
    by (auto simp: somes_set rs newPhoto_def split: if_splits)
  then have ok: "ids_agree (s1\<lparr>photos := photos s1 @ somes rs\<rparr>)"
    using s1 by (auto simp: ids_agree_def)
  have bad: "ids_agree (upload_failed s1)" "ids_agree (upload_failed s)"
    using s1 assms by (simp_all add: ids_agree_def upload_failed_def)
  show ?thesis
    using assms ok bad u by (simp add: handleFileUpload_def)
qed

lemma handleDeletePhotos_ids:
  "ids_agree s \<Longrightarrow> ids_agree (handleDeletePhotos flt ids s)"
  by (auto simp: ids_agree_def handleDeletePhotos_def delete_failed_def deleteAll_apply
      split: del_fault.splits if_splits)

lemma handleDeleteAlbum_ids:
  "ids_agree s \<Longrightarrow> ids_agree (handleDeleteAlbum fault a s)"
  by (auto simp: ids_agree_def handleDeleteAlbum_def Let_def dest!: putAll_Some)

lemma handleAddToAlbum_ids:
  "ids_agree s \<Longrightarrow> ids_agree (handleAddToAlbum fault i a s)"
  by (auto simp: ids_agree_def handleAddToAlbum_def Let_def dest!: putFound_Some
      split: if_splits)

lemma handleRemoveFromAlbum_ids:
  "ids_agree s \<Longrightarrow> ids_agree (handleRemoveFromAlbum fault i a s)"
  by (auto simp: ids_agree_def handleRemoveFromAlbum_def Let_def dest!: putFound_Some
      split: if_splits)

lemma handleRename_ids:
  "ids_agree s \<Longrightarrow> ids_agree (handleRename fault n s)"
  by (auto simp: ids_agree_def handleRename_def Let_def dest!: putFound_Some
      split: if_splits option.splits)

lemma handleCreateAlbum_ids:
  "ids_agree s \<Longrightarrow> ids_agree (handleCreateAlbum fault i d n s)"
  by (auto simp: ids_agree_def handleCreateAlbum_def Let_def dest!: putAll_Some
      split: if_splits)

lemma loadFileUrl_ids:
  "ids_agree s \<Longrightarrow> ids_agree (snd (loadFileUrl r u f s))"
  by (auto simp: ids_agree_def loadFileUrl_def split: if_splits option.splits)

lemma step_ids: "ids_agree s \<Longrightarrow> ids_agree (step x s)"
  by (cases x)
    (simp_all add: handleFileUpload_ids handleDeletePhotos_ids handleDeleteAlbum_ids
      handleAddToAlbum_ids handleRemoveFromAlbum_ids handleRename_ids handleCreateAlbum_ids
      loadFileUrl_ids,
     simp_all add: ids_agree_def)

lemma run_ids: "ids_agree s \<Longrightarrow> ids_agree (run ops s)"
  unfolding run_def by (induction ops arbitrary: s) (simp_all add: step_ids)

text \<open>
  C9. A record made by an upload has the generated id both as its \<^verbatim>\<open>id\<close> and as its
  \<^verbatim>\<open>fileId\<close>, the blob is stored in "files" and the record in "photos" under that id.
  From a state whose records have \<^verbatim>\<open>fileId\<close> equal to \<^verbatim>\<open>id\<close> (the empty store is one),
  every record in memory after any sequence of operations has them equal, and a
  successful \<^verbatim>\<open>handleDeletePhotos\<close> of that one id leaves neither a blob nor a record
  under it.
\<close>

theorem item_id_is_blob_key:
  "(uploadFile u s = (Some p, s1) \<longrightarrow>
      photo_id p = up_id u \<and> fileId p = up_id u \<and>
      fileStore s1 (fileId p) = Some (up_file u) \<and> photoStore s1 (photo_id p) = Some p) \<and>
   (ids_agree s \<and> dbReady (run ops s) \<and> q \<in> set (photos (run ops s)) \<longrightarrow>
      fileId q = photo_id q \<and>
      fileStore (handleDeletePhotos DelOk [photo_id q] (run ops s)) (fileId q) = None \<and>
      photoStore (handleDeletePhotos DelOk [photo_id q] (run ops s)) (photo_id q) = None \<and>
      q \<notin> set (photos (handleDeletePhotos DelOk [photo_id q] (run ops s))))"
proof (intro conjI impI)
  assume "uploadFile u s = (Some p, s1)"
  then have "up_fault u = NoFault \<and> p = newPhoto (selectedView s) u \<and>
      s1 = s\<lparr>fileStore := (fileStore s)(up_id u \<mapsto> up_file u),
             photoStore := (photoStore s)(up_id u \<mapsto> newPhoto (selectedView s) u)\<rparr>"
    by (auto simp: uploadFile_def split: put_fault.splits)
  then show "photo_id p = up_id u" "fileId p = up_id u"
    "fileStore s1 (fileId p) = Some (up_file u)" "photoStore s1 (photo_id p) = Some p"
    by (simp_all add: newPhoto_def)
next
  assume a: "ids_agree s \<and> dbReady (run ops s) \<and> q \<in> set (photos (run ops s))"
  then have "ids_agree (run ops s)"
    by (simp add: run_ids)
  with a show e: "fileId q = photo_id q"
    by (simp add: ids_agree_def)
  from a show "fileStore (handleDeletePhotos DelOk [photo_id q] (run ops s)) (fileId q) = None"
    "photoStore (handleDeletePhotos DelOk [photo_id q] (run ops s)) (photo_id q) = None"
    "q \<notin> set (photos (handleDeletePhotos DelOk [photo_id q] (run ops s)))"
    using e by (simp_all add: handleDeletePhotos_def deleteAll_apply)
qed

theorem item_id_is_blob_key_witness:
  "(let u = \<lparr>up_file = \<lparr>file_name = units ''a.png'', file_type = ''image/png'', file_size = 3\<rparr>,
              up_id = ''id-1'', up_now = ''2024-01-02T10:00:00.000Z'', up_fault = NoFault\<rparr>;
        q = newPhoto ''all'' u;
        s1 = run [FileUpload True [u], SetSelectedView ''id-7''] init
    in ids_agree init \<and> dbReady s1 \<and> q \<in> set (photos s1) \<and>
       fst (uploadFile u init) = Some q \<and> photo_id q = ''id-1'' \<and> fileId q = ''id-1'' \<and>
       fileStore (snd (uploadFile u init)) ''id-1'' = Some (up_file u) \<and>
       photoStore (snd (uploadFile u init)) ''id-1'' = Some q \<and>
       fileStore (handleDeletePhotos DelOk [''id-1''] s1) ''id-1'' = None \<and>
       photoStore (handleDeletePhotos DelOk [''id-1''] s1) ''id-1'' = None \<and>
       q \<notin> set (photos (handleDeletePhotos DelOk [''id-1''] s1)))"
proof -
  define u where "u = \<lparr>up_file = \<lparr>file_name = units ''a.png'', file_type = ''image/png'', file_size = 3\<rparr>,
              up_id = ''id-1'', up_now = ''2024-01-02T10:00:00.000Z'', up_fault = NoFault\<rparr>"
  define q where "q = newPhoto ''all'' u"
  define s1 where "s1 = run [FileUpload True [u], SetSelectedView ''id-7''] init"
  have i: "ids_agree init"
    by (simp add: ids_agree_def init_def)
  have r: "dbReady s1" "q \<in> set (photos s1)"
    by (simp_all add: s1_def q_def u_def run_def init_def handleFileUpload_def uploadFile_def)
  have f: "uploadFile u init = (Some q, snd (uploadFile u init))" "fst (uploadFile u init) = Some q"
    by (simp_all add: q_def u_def uploadFile_def init_def)
  have k: "up_id u = ''id-1''"
    by (simp add: u_def)
  note t = item_id_is_blob_key [of u init q "snd (uploadFile u init)" "[FileUpload True [u], SetSelectedView ''id-7'']" q]
  from t f(1) have a0: "photo_id q = up_id u \<and> fileId q = up_id u \<and>
      fileStore (snd (uploadFile u init)) (fileId q) = Some (up_file u) \<and>
      photoStore (snd (uploadFile u init)) (photo_id q) = Some q"
    by blast
  then have a: "photo_id q = ''id-1''" "fileId q = ''id-1''"
    "fileStore (snd (uploadFile u init)) ''id-1'' = Some (up_file u)"
    "photoStore (snd (uploadFile u init)) ''id-1'' = Some q"
    unfolding k by metis+
  from t i r have b0: "fileStore (handleDeletePhotos DelOk [photo_id q] s1) (fileId q) = None \<and>
      photoStore (handleDeletePhotos DelOk [photo_id q] s1) (photo_id q) = None \<and>
      q \<notin> set (photos (handleDeletePhotos DelOk [photo_id q] s1))"
    unfolding s1_def by blast
  then have b: "fileStore (handleDeletePhotos DelOk [''id-1''] s1) ''id-1'' = None"
    "photoStore (handleDeletePhotos DelOk [''id-1''] s1) ''id-1'' = None"
    "q \<notin> set (photos (handleDeletePhotos DelOk [''id-1''] s1))"
    unfolding a by blast+
  from i r f(2) a b show ?thesis
    unfolding Let_def u_def q_def s1_def by blast
qed

subsection \<open>The kind of an uploaded file\<close>

text \<open>
  C10. For a file of an upload whose two writes succeed (the generated ids distinct), the
  record stored under its id has the type "video" exactly when the declared MIME type of
  the file starts with "video/", and the type "image" in every other case; when every
  file of the upload succeeds, that record is also in the list in memory.
\<close>

theorem upload_kind:
  assumes "files \<noteq> []" and "dbReady s \<or> initOk" and "distinct (map up_id files)"
    and "u \<in> set files" and "up_fault u = NoFault"
  shows "\<exists>p. photoStore (handleFileUpload initOk files s) (up_id u) = Some p \<and>
      (photo_type p = ''video'' \<longleftrightarrow> prefix ''video/'' (file_type (up_file u))) \<and>
      (photo_type p = ''image'' \<longleftrightarrow> \<not> prefix ''video/'' (file_type (up_file u))) \<and>
      ((\<forall>v\<in>set files. up_fault v = NoFault) \<longrightarrow>
         p \<in> set (photos (handleFileUpload initOk files s)))"
proof -
  let ?s1 = "snd (uploadAll files (s\<lparr>dbReady := True\<rparr>))"
  let ?p = "newPhoto (selectedView s) u"
  have p: "photoStore ?s1 (up_id u) = Some ?p"
    using uploadAll_photoStore [OF assms(3,4), of "s\<lparr>dbReady := True\<rparr>"] assms(5) by simp
  have st: "photoStore (handleFileUpload initOk files s) (up_id u) = Some ?p"
    unfolding handleFileUpload_unfold [OF assms(1,2)] Let_def
    using p by (simp add: upload_failed_def)
  have mem: "(\<forall>v\<in>set files. up_fault v = NoFault) \<longrightarrow>
         ?p \<in> set (photos (handleFileUpload initOk files s))"
    unfolding handleFileUpload_unfold [OF assms(1,2)] Let_def
    using assms(4) by auto
  have k: "(photo_type ?p = ''video'' \<longleftrightarrow> prefix ''video/'' (file_type (up_file u)))"
    "(photo_type ?p = ''image'' \<longleftrightarrow> \<not> prefix ''video/'' (file_type (up_file u)))"
    by (simp_all add: newPhoto_def startsWith_prefix)
  from st mem k show ?thesis
    by blast
qed

theorem upload_kind_witness:
  "(let f1 = \<lparr>up_file = \<lparr>file_name = units ''clip.mp4'', file_type = ''video/mp4'', file_size = 9\<rparr>,
               up_id = ''id-1'', up_now = ''2024-01-02T10:00:00.000Z'', up_fault = NoFault\<rparr>;
        f2 = \<lparr>up_file = \<lparr>file_name = units ''doc.pdf'', file_type = ''application/pdf'', file_size = 5\<rparr>,
               up_id = ''id-2'', up_now = ''2024-01-02T10:00:01.000Z'', up_fault = NoFault\<rparr>;
        f3 = \<lparr>up_file = \<lparr>file_name = units ''raw'', file_type = '''', file_size = 1\<rparr>,
               up_id = ''id-3'', up_now = ''2024-01-02T10:00:02.000Z'', up_fault = NoFault\<rparr>;
        s' = handleFileUpload True [f1, f2, f3] init
    in map photo_type (photos s') = [''video'', ''image'', ''image''] \<and>
       (\<exists>p. photoStore s' ''id-2'' = Some p \<and> photo_type p = ''image'' \<and> p \<in> set (photos s')))"
proof -
  define f1 where "f1 = \<lparr>up_file = \<lparr>file_name = units ''clip.mp4'', file_type = ''video/mp4'', file_size = 9\<rparr>,
               up_id = ''id-1'', up_now = ''2024-01-02T10:00:00.000Z'', up_fault = NoFault\<rparr>"
  define f2 where "f2 = \<lparr>up_file = \<lparr>file_name = units ''doc.pdf'', file_type = ''application/pdf'', file_size = 5\<rparr>,
               up_id = ''id-2'', up_now = ''2024-01-02T10:00:01.000Z'', up_fault = NoFault\<rparr>"
  define f3 where "f3 = \<lparr>up_file = \<lparr>file_name = units ''raw'', file_type = '''', file_size = 1\<rparr>,
               up_id = ''id-3'', up_now = ''2024-01-02T10:00:02.000Z'', up_fault = NoFault\<rparr>"
  have a: "map photo_type (photos (handleFileUpload True [f1, f2, f3] init)) = [''video'', ''image'', ''image'']"
    by (simp add: f1_def f2_def f3_def handleFileUpload_def uploadFile_def newPhoto_def init_def)
  have h: "[f1, f2, f3] \<noteq> []" "dbReady init \<or> True" "distinct (map up_id [f1, f2, f3])"
    "f2 \<in> set [f1, f2, f3]" "up_fault f2 = NoFault"
    by (simp_all add: f1_def f2_def f3_def)
  have n: "\<not> prefix ''video/'' (file_type (up_file f2))" "up_id f2 = ''id-2''"
    "\<forall>v\<in>set [f1, f2, f3]. up_fault v = NoFault"
    by (simp_all add: f1_def f2_def f3_def)
  from upload_kind [OF h] n
  have b: "\<exists>p. photoStore (handleFileUpload True [f1, f2, f3] init) ''id-2'' = Some p \<and>
      photo_type p = ''image'' \<and> p \<in> set (photos (handleFileUpload True [f1, f2, f3] init))"
    by auto
  from a b show ?thesis
    unfolding Let_def f1_def f2_def f3_def by blast
qed

subsection \<open>Adding to and removing from an album\<close>

lemma putFound_idem: "putFound i ps (putFound i ps m) = putFound i ps m"
  by (simp add: putFound_def split: option.splits)

lemma add_twice:
  "(\<lambda>p. if photo_id p = i \<and> a \<notin> set (photo_albums p)
        then p\<lparr>photo_albums := photo_albums p @ [a]\<rparr> else p) \<circ>
   (\<lambda>p. if photo_id p = i \<and> a \<notin> set (photo_albums p)
        then p\<lparr>photo_albums := photo_albums p @ [a]\<rparr> else p) =
   (\<lambda>p. if photo_id p = i \<and> a \<notin> set (photo_albums p)
        then p\<lparr>photo_albums := photo_albums p @ [a]\<rparr> else p)"
  by (rule ext) auto

lemma remove_twice:
  "(\<lambda>p. if photo_id p = i
        then p\<lparr>photo_albums := filter (\<lambda>j. j \<noteq> a) (photo_albums p)\<rparr> else p) \<circ>
   (\<lambda>p. if photo_id p = i
        then p\<lparr>photo_albums := filter (\<lambda>j. j \<noteq> a) (photo_albums p)\<rparr> else p) =
   (\<lambda>p. if photo_id p = i
        then p\<lparr>photo_albums := filter (\<lambda>j. j \<noteq> a) (photo_albums p)\<rparr> else p)"
  by (rule ext) auto

lemma add_twice_state:
  "dbReady s \<Longrightarrow>
   handleAddToAlbum False i a (handleAddToAlbum False i a s) = handleAddToAlbum False i a s"
  by (simp add: handleAddToAlbum_def Let_def add_twice putFound_idem)

lemma remove_twice_state:
  "dbReady s \<Longrightarrow>
   handleRemoveFromAlbum False i a (handleRemoveFromAlbum False i a s) =
     handleRemoveFromAlbum False i a s"
  by (simp add: handleRemoveFromAlbum_def Let_def remove_twice putFound_idem)

lemma add_twice_store:
  "store_state (handleAddToAlbum f i a (handleAddToAlbum f i a s)) =
     store_state (handleAddToAlbum f i a s)"
  by (simp add: handleAddToAlbum_def Let_def add_twice putFound_idem store_state_def)

lemma remove_twice_store:
  "store_state (handleRemoveFromAlbum f i a (handleRemoveFromAlbum f i a s)) =
     store_state (handleRemoveFromAlbum f i a s)"
  by (simp add: handleRemoveFromAlbum_def Let_def remove_twice putFound_idem store_state_def)

lemma add_present:
  assumes "\<forall>p\<in>set (photos s). photo_id p = i \<longrightarrow> a \<in> set (photo_albums p)"
  shows "photos (handleAddToAlbum f i a s) = photos s"
proof -
  have "map (\<lambda>p. if photo_id p = i \<and> a \<notin> set (photo_albums p)
                 then p\<lparr>photo_albums := photo_albums p @ [a]\<rparr> else p) (photos s) = photos s"
    using assms by (intro map_idI) auto
  then show ?thesis
    by (simp add: handleAddToAlbum_def Let_def)
qed

lemma filter_absent: "a \<notin> set xs \<Longrightarrow> filter (\<lambda>j. j \<noteq> a) xs = xs"
  by (induction xs) auto

lemma remove_absent:
  assumes "\<forall>p\<in>set (photos s). photo_id p = i \<longrightarrow> a \<notin> set (photo_albums p)"
  shows "photos (handleRemoveFromAlbum f i a s) = photos s"
proof -
  have "map (\<lambda>p. if photo_id p = i
                 then p\<lparr>photo_albums := filter (\<lambda>j. j \<noteq> a) (photo_albums p)\<rparr> else p)
          (photos s) = photos s"
    using assms by (intro map_idI) (auto simp: filter_absent)
  then show ?thesis
    by (simp add: handleRemoveFromAlbum_def Let_def)
qed

text \<open>
  C6. \<^verbatim>\<open>handleAddToAlbum\<close> and \<^verbatim>\<open>handleRemoveFromAlbum\<close> return the state unchanged when the
  album is "all". For every photo id and album id, with or without a storage failure,
  two calls with the same arguments give the same store state (the records in memory, the
  albums and both object stores) as one call; with a database and no failure the whole
  state is the same. Adding an album every photo of that id already has, and removing an
  album none of them has, leave the records in memory as they are.
\<close>

theorem album_membership_idempotent:
  "handleAddToAlbum f i ''all'' s = s \<and>
   handleRemoveFromAlbum f i ''all'' s = s \<and>
   store_state (handleAddToAlbum f i a (handleAddToAlbum f i a s)) =
     store_state (handleAddToAlbum f i a s) \<and>
   store_state (handleRemoveFromAlbum f i a (handleRemoveFromAlbum f i a s)) =
     store_state (handleRemoveFromAlbum f i a s) \<and>
   (dbReady s \<longrightarrow>
      handleAddToAlbum False i a (handleAddToAlbum False i a s) = handleAddToAlbum False i a s \<and>
      handleRemoveFromAlbum False i a (handleRemoveFromAlbum False i a s) =
        handleRemoveFromAlbum False i a s) \<and>
   ((\<forall>p\<in>set (photos s). photo_id p = i \<longrightarrow> a \<in> set (photo_albums p)) \<longrightarrow>
      photos (handleAddToAlbum f i a s) = photos s) \<and>
   ((\<forall>p\<in>set (photos s). photo_id p = i \<longrightarrow> a \<notin> set (photo_albums p)) \<longrightarrow>
      photos (handleRemoveFromAlbum f i a s) = photos s)"
proof (intro conjI impI)
  show "handleAddToAlbum f i ''all'' s = s"
    by (simp add: handleAddToAlbum_def)
  show "handleRemoveFromAlbum f i ''all'' s = s"
    by (simp add: handleRemoveFromAlbum_def)
  show "store_state (handleAddToAlbum f i a (handleAddToAlbum f i a s)) =
     store_state (handleAddToAlbum f i a s)"
    by (rule add_twice_store)
  show "store_state (handleRemoveFromAlbum f i a (handleRemoveFromAlbum f i a s)) =
     store_state (handleRemoveFromAlbum f i a s)"
    by (rule remove_twice_store)
next
  assume "dbReady s"
  then show "handleAddToAlbum False i a (handleAddToAlbum False i a s) = handleAddToAlbum False i a s"
    "handleRemoveFromAlbum False i a (handleRemoveFromAlbum False i a s) =
        handleRemoveFromAlbum False i a s"
    by (rule add_twice_state, rule remove_twice_state)
next
  assume "\<forall>p\<in>set (photos s). photo_id p = i \<longrightarrow> a \<in> set (photo_albums p)"
  then show "photos (handleAddToAlbum f i a s) = photos s"
    by (rule add_present)
next
  assume "\<forall>p\<in>set (photos s). photo_id p = i \<longrightarrow> a \<notin> set (photo_albums p)"
  then show "photos (handleRemoveFromAlbum f i a s) = photos s"
    by (rule remove_absent)
qed

theorem album_membership_idempotent_witness:
  "(let s = handleFileUpload True
              [\<lparr>up_file = \<lparr>file_name = units ''a.png'', file_type = ''image/png'', file_size = 3\<rparr>,
                up_id = ''id-1'', up_now = ''2024-01-02T10:00:00.000Z'', up_fault = NoFault\<rparr>] init;
        s1 = handleAddToAlbum False ''id-1'' ''id-2'' s
    in dbReady s \<and>
       map photo_albums (photos s1) = [[''all'', ''id-2'']] \<and>
       handleAddToAlbum False ''id-1'' ''id-2'' s1 = s1 \<and>
       photos (handleAddToAlbum False ''id-1'' ''id-2'' s1) = photos s1 \<and>
       photos (handleRemoveFromAlbum False ''id-1'' ''id-2'' s) = photos s \<and>
       handleRemoveFromAlbum False ''id-1'' ''id-2'' (handleRemoveFromAlbum False ''id-1'' ''id-2'' s1) =
         handleRemoveFromAlbum False ''id-1'' ''id-2'' s1 \<and>
       handleRemoveFromAlbum False ''id-1'' ''all'' s1 = s1)"
proof -
  define s where "s = handleFileUpload True
              [\<lparr>up_file = \<lparr>file_name = units ''a.png'', file_type = ''image/png'', file_size = 3\<rparr>,
                up_id = ''id-1'', up_now = ''2024-01-02T10:00:00.000Z'', up_fault = NoFault\<rparr>] init"
  define s1 where "s1 = handleAddToAlbum False ''id-1'' ''id-2'' s"
  have d: "dbReady s" "dbReady s1"
    by (simp_all add: s1_def s_def handleFileUpload_def uploadFile_def init_def
        handleAddToAlbum_def Let_def)
  have m: "map photo_albums (photos s1) = [[''all'', ''id-2'']]"
    by (simp add: s1_def s_def handleFileUpload_def uploadFile_def init_def newPhoto_def
        handleAddToAlbum_def Let_def)
  have h1: "\<forall>p\<in>set (photos s1). photo_id p = ''id-1'' \<longrightarrow> ''id-2'' \<in> set (photo_albums p)"
    by (simp add: s1_def s_def handleFileUpload_def uploadFile_def init_def newPhoto_def
        handleAddToAlbum_def Let_def)
  have h2: "\<forall>p\<in>set (photos s). photo_id p = ''id-1'' \<longrightarrow> ''id-2'' \<notin> set (photo_albums p)"
    by (simp add: s_def handleFileUpload_def uploadFile_def init_def newPhoto_def)
  from album_membership_idempotent [of False "''id-1''" s "''id-2''"] d(1)
  have a: "handleAddToAlbum False ''id-1'' ''id-2'' s1 = s1"
    unfolding s1_def by blast
  from album_membership_idempotent [of False "''id-1''" s1 "''id-2''"] d(2) h1
  have b: "photos (handleAddToAlbum False ''id-1'' ''id-2'' s1) = photos s1"
    "handleRemoveFromAlbum False ''id-1'' ''id-2'' (handleRemoveFromAlbum False ''id-1'' ''id-2'' s1) =
         handleRemoveFromAlbum False ''id-1'' ''id-2'' s1"
    "handleRemoveFromAlbum False ''id-1'' ''all'' s1 = s1"
    by blast+
  from album_membership_idempotent [of False "''id-1''" s "''id-2''"] h2
  have c: "photos (handleRemoveFromAlbum False ''id-1'' ''id-2'' s) = photos s"
    by blast
  from d(1) m a b c show ?thesis
    unfolding Let_def s_def s1_def by blast
qed

subsection \<open>The album view\<close>

lemma includes_str_sublist: "includes_str s t \<longleftrightarrow> sublist t s"
  by (induction s) (simp_all add: sublist_Cons_right startsWith_prefix)

lemma sublist_map_iff:
  "sublist (map f t) (map f n) \<longleftrightarrow> (\<exists>u. sublist u n \<and> map f u = map f t)"
proof
  assume "sublist (map f t) (map f n)"
  then obtain ps ss where h: "map f n = ps @ map f t @ ss"
    unfolding sublist_def by blast
  define u where "u = take (length t) (drop (length ps) n)"
  have "map f u = take (length t) (drop (length ps) (map f n))"
    by (simp add: u_def take_map drop_map)
  also have "\<dots> = map f t"
    by (simp add: h)
  finally have m: "map f u = map f t" .
  have "sublist u (drop (length ps) n)"
    unfolding u_def by (rule sublist_take)
  moreover have "sublist (drop (length ps) n) n"
    by (rule sublist_drop)
  ultimately have "sublist u n"
    by (rule sublist_order.order.trans)
  with m show "\<exists>u. sublist u n \<and> map f u = map f t"
    by blast
next
  assume "\<exists>u. sublist u n \<and> map f u = map f t"
  then obtain u where s: "sublist u n" and u: "map f u = map f t"
    by blast
  from s have "sublist (map f u) (map f n)"
    by (rule map_mono_sublist)
  then show "sublist (map f t) (map f n)"
    unfolding u .
qed

lemma includes_charwise:
  "includes_str (map cf n) (map cf t) \<longleftrightarrow> ci_substring cf t n"
  by (simp add: includes_str_sublist ci_substring_def sublist_map_iff)

text \<open>
  What the filter computes, for every lower-casing \<open>lc\<close>: the photos of the state, in
  their order, that are in the selected album and, when the search text is not empty,
  whose lower-cased name includes the lower-cased search text.
\<close>

lemma filteredPhotos_includes:
  "filteredPhotos lc s =
     filter (\<lambda>p. (selectedView s = ''all'' \<or> selectedView s \<in> set (photo_albums p)) \<and>
                 (searchTerm s = [] \<or> sublist (lc (searchTerm s)) (lc (photo_name p))))
       (photos s)"
  by (simp add: filteredPhotos_def inSelectedAlbum_def matchesSearch_def includes_str_sublist)

text \<open>
  Where the lower-casing changes one code unit at a time (as it does on texts of ASCII
  and Latin-1 letters), this is the case-insensitive substring test.
\<close>

lemma filteredPhotos_charwise:
  assumes "\<forall>p\<in>set (photos s). lc (photo_name p) = map cf (photo_name p)"
    and "lc (searchTerm s) = map cf (searchTerm s)"
  shows "filteredPhotos lc s =
     filter (\<lambda>p. (selectedView s = ''all'' \<or> selectedView s \<in> set (photo_albums p)) \<and>
                 (searchTerm s = [] \<or> ci_substring cf (searchTerm s) (photo_name p)))
       (photos s)"
  unfolding filteredPhotos_def inSelectedAlbum_def matchesSearch_def
  using assms by (intro filter_cong refl) (simp add: includes_charwise)

text \<open>
  C7. The filter is written to keep the photos whose name contains the search text
  whatever the case of the letters, and misses a case. The name is the four capital Greek
  letters U+039F U+0394 U+039F U+03A3 (omicron, delta, omicron, sigma) and the search text
  is the capital sigma U+03A3 alone. \<^verbatim>\<open>toLowerCase\<close> turns the name into U+03BF U+03B4
  U+03BF U+03C2, with the sigma of the end of a word, and the search text into U+03C3.
  The photo is in the selected album and its name contains the search text as it stands,
  yet the view does not keep it.
\<close>

theorem search_misses_final_sigma:
  "sublist [931::nat] [927, 916, 927, 931] \<and>
   inSelectedAlbum
     (init\<lparr>photos := [\<lparr>photo_id = ''id-1'', photo_name = [927, 916, 927, 931],
                          fileId = ''id-1'', photo_type = ''image'', photo_size = 1,
                          photo_date = ''2024-01-02T10:00:00.000Z'',
                          photo_albums = [''all'']\<rparr>],
           searchTerm := [931]\<rparr>)
     \<lparr>photo_id = ''id-1'', photo_name = [927, 916, 927, 931],
       fileId = ''id-1'', photo_type = ''image'', photo_size = 1,
       photo_date = ''2024-01-02T10:00:00.000Z'', photo_albums = [''all'']\<rparr> \<and>
   filteredPhotos
     (\<lambda>w. if w = [927, 916, 927, 931] then [959, 948, 959, 962]
          else if w = [931] then [963] else w)
     (init\<lparr>photos := [\<lparr>photo_id = ''id-1'', photo_name = [927, 916, 927, 931],
                          fileId = ''id-1'', photo_type = ''image'', photo_size = 1,
                          photo_date = ''2024-01-02T10:00:00.000Z'',
                          photo_albums = [''all'']\<rparr>],
           searchTerm := [931]\<rparr>) = []"
proof (intro conjI)
  have "[927, 916, 927, 931] = [927, 916, 927] @ [931::nat] @ []"
    by simp
  then show "sublist [931] [927, 916, 927, 931::nat]"
    unfolding sublist_def by blast
qed (simp_all add: filteredPhotos_def inSelectedAlbum_def matchesSearch_def init_def)

subsection \<open>Sorting by date, most recent first\<close>

lemma cmp_gt_desc:
  "cmp_gt (\<lambda>a b. num_sub (key b) (key a)) x y \<longleftrightarrow>
     (\<exists>kx ky. key x = Some kx \<and> key y = Some ky \<and> kx < ky)"
  by (auto simp: cmp_gt_def num_sub_def split: option.splits)

lemma mset_js_insert: "mset (js_insert cmp x ys) = add_mset x (mset ys)"
  by (induction ys) simp_all

lemma mset_js_sort: "mset (js_sort cmp xs) = mset xs"
  unfolding js_sort_def by (induction xs) (simp_all add: mset_js_insert)

lemma set_js_insert: "set (js_insert cmp x ys) = insert x (set ys)"
  by (induction ys) auto

lemma set_js_sort: "set (js_sort cmp xs) = set xs"
  unfolding js_sort_def by (induction xs) (simp_all add: set_js_insert)

lemma sorted_js_insert:
  assumes "sorted_wrt (\<lambda>a b. newer_or_same (key a) (key b)) ys"
    and "key x \<noteq> None" and "\<forall>y\<in>set ys. key y \<noteq> None"
  shows "sorted_wrt (\<lambda>a b. newer_or_same (key a) (key b))
           (js_insert (\<lambda>a b. num_sub (key b) (key a)) x ys)"
  using assms
proof (induction ys)
  case Nil
  then show ?case by simp
next
  case (Cons y ys)
  show ?case
  proof (cases "cmp_gt (\<lambda>a b. num_sub (key b) (key a)) x y")
    case True
    then have "newer_or_same (key y) (key x)"
      by (auto simp: cmp_gt_desc newer_or_same_def)
    with Cons True show ?thesis
      by (auto simp: set_js_insert)
  next
    case False
    with Cons.prems have xy: "newer_or_same (key x) (key y)"
      by (auto simp: cmp_gt_desc newer_or_same_def)
    have "\<forall>z\<in>set ys. newer_or_same (key x) (key z)"
    proof
      fix z assume "z \<in> set ys"
      with Cons.prems(1) have "newer_or_same (key y) (key z)"
        by simp
      with xy show "newer_or_same (key x) (key z)"
        by (auto simp: newer_or_same_def)
    qed
    with Cons.prems(1) xy False show ?thesis
      by simp
  qed
qed

lemma sorted_js_sort:
  assumes "\<forall>x\<in>set xs. key x \<noteq> None"
  shows "sorted_wrt (\<lambda>a b. newer_or_same (key a) (key b))
           (js_sort (\<lambda>a b. num_sub (key b) (key a)) xs)"
  using assms unfolding js_sort_def
proof (induction xs)
  case Nil
  then show ?case by simp
next
  case (Cons x xs)
  have "\<forall>y\<in>set (foldr (js_insert (\<lambda>a b. num_sub (key b) (key a))) xs []). key y \<noteq> None"
    using Cons.prems set_js_sort [of "\<lambda>a b. num_sub (key b) (key a)" xs]
    by (simp add: js_sort_def)
  with Cons show ?case
    by (simp add: sorted_js_insert)
qed

text \<open>The sort is stable: elements of one time value keep their order.\<close>

lemma stable_js_insert:
  "filter (\<lambda>z. key z = k) (js_insert (\<lambda>a b. num_sub (key b) (key a)) x ys) =
     (if key x = k then x # filter (\<lambda>z. key z = k) ys else filter (\<lambda>z. key z = k) ys)"
  by (induction ys) (auto simp: cmp_gt_desc)

lemma stable_js_sort:
  "filter (\<lambda>z. key z = k) (js_sort (\<lambda>a b. num_sub (key b) (key a)) xs) =
     filter (\<lambda>z. key z = k) xs"
  unfolding js_sort_def by (induction xs) (simp_all add: stable_js_insert)

subsection \<open>Grouping by date\<close>

lemma map_of_group_update:
  "map_of (map (\<lambda>(k, v). if k = d then (k, v @ [p]) else (k, v)) g) k =
     (if k = d then map_option (\<lambda>v. v @ [p]) (map_of g k) else map_of g k)"
  by (induction g) auto

lemma fst_group_update:
  "fst \<circ> (\<lambda>(k, v). if k = d then (k, v @ [p]) else (k, v)) = fst"
  by (rule ext) (simp split: prod.splits)

lemma groups_of:
  "distinct (map fst (foldl add_to_group [] xs)) \<and>
   (\<forall>k. map_of (foldl add_to_group [] xs) k =
      (if k \<in> date_key ` set xs then Some (filter (\<lambda>p. date_key p = k) xs) else None))"
proof (induction xs rule: rev_induct)
  case Nil
  then show ?case by simp
next
  case (snoc p xs)
  let ?g = "foldl add_to_group [] xs"
  let ?d = "date_key p"
  from snoc have dist: "distinct (map fst ?g)"
    and look: "\<And>k. map_of ?g k =
      (if k \<in> date_key ` set xs then Some (filter (\<lambda>p. date_key p = k) xs) else None)"
    by simp_all
  show ?case
  proof (cases "map_of ?g ?d")
    case None
    then have new: "?d \<notin> fst ` set ?g"
      by (simp add: map_of_eq_None_iff)
    from None look [of ?d] have nd: "?d \<notin> date_key ` set xs"
      by (simp split: if_splits)
    have g: "foldl add_to_group [] (xs @ [p]) = ?g @ [(?d, [p])]"
      using None by (simp add: add_to_group_def date_key_def)
    from nd have e: "filter (\<lambda>q. date_key q = ?d) xs = []"
      by (auto simp: filter_empty_conv image_iff)
    have "\<And>k. map_of (?g @ [(?d, [p])]) k =
        (if k \<in> date_key ` set (xs @ [p])
         then Some (filter (\<lambda>q. date_key q = k) (xs @ [p])) else None)"
      using nd e by (auto simp: look map_add_def split: option.splits)
    with dist new show ?thesis
      unfolding g by simp
  next
    case (Some v)
    have g: "foldl add_to_group [] (xs @ [p]) =
        map (\<lambda>(k, v). if k = ?d then (k, v @ [p]) else (k, v)) ?g"
      using Some by (simp add: add_to_group_def date_key_def)
    from Some look [of ?d] have d: "?d \<in> date_key ` set xs"
      by (simp split: if_splits)
    have "\<And>k. map_of (map (\<lambda>(k, v). if k = ?d then (k, v @ [p]) else (k, v)) ?g) k =
        (if k \<in> date_key ` set (xs @ [p])
         then Some (filter (\<lambda>q. date_key q = k) (xs @ [p])) else None)"
      using d by (auto simp: map_of_group_update look)
    with dist show ?thesis
      unfolding g by (simp add: fst_group_update)
  qed
qed

lemma groupedPhotos_keys:
  "distinct (map fst (groupedPhotos lc s)) \<and>
   set (map fst (groupedPhotos lc s)) = date_key ` set (filteredPhotos lc s)"
proof -
  let ?g = "foldl add_to_group [] (filteredPhotos lc s)"
  from groups_of [of "filteredPhotos lc s"] have d: "distinct (map fst ?g)"
    and look: "\<And>k. map_of ?g k =
      (if k \<in> date_key ` set (filteredPhotos lc s)
       then Some (filter (\<lambda>p. date_key p = k) (filteredPhotos lc s)) else None)"
    by simp_all
  have "fst ` set ?g = dom (map_of ?g)"
    by (simp add: dom_map_of_conv_image_fst)
  also have "\<dots> = date_key ` set (filteredPhotos lc s)"
    unfolding dom_def by (auto simp: look split: if_splits)
  finally show ?thesis
    using d by (simp add: groupedPhotos_def)
qed

lemma groupedPhotos_group:
  assumes "(d, ps) \<in> set (groupedPhotos lc s)"
  shows "ps = filter (\<lambda>p. date_key p = d) (filteredPhotos lc s) \<and> ps \<noteq> []"
proof -
  let ?g = "foldl add_to_group [] (filteredPhotos lc s)"
  from groups_of [of "filteredPhotos lc s"] have d: "distinct (map fst ?g)"
    and look: "\<And>k. map_of ?g k =
      (if k \<in> date_key ` set (filteredPhotos lc s)
       then Some (filter (\<lambda>p. date_key p = k) (filteredPhotos lc s)) else None)"
    by simp_all
  from assms d have "map_of ?g d = Some ps"
    by (simp add: groupedPhotos_def)
  with look [of d] have m: "d \<in> date_key ` set (filteredPhotos lc s)"
    and p: "ps = filter (\<lambda>p. date_key p = d) (filteredPhotos lc s)"
    by (simp_all split: if_splits)
  from m have "filter (\<lambda>p. date_key p = d) (filteredPhotos lc s) \<noteq> []"
    by (auto simp: filter_empty_conv)
  with p show ?thesis
    by simp
qed
text \<open>
  C8. The side bar lists the albums that are not the default one, each once, and sorted
  so that an album is never followed by a more recent one (when their dates are valid
  dates, as the dates written by \<^verbatim>\<open>handleCreateAlbum\<close> are). The photos of the view are
  grouped by the part of their date before the "T": every such date is the key of exactly
  one group, and the group of a date holds the photos of the view with that date, in the
  order they have in the view. The dates are listed each once and sorted so that a date
  is never followed by a more recent one (when they are valid dates).
\<close>

theorem listing_order:
  "((\<forall>a\<in>set (albums s). \<not> isDefault a \<longrightarrow> album_time dv a \<noteq> None) \<longrightarrow>
      sorted_wrt (\<lambda>a b. newer_or_same (album_time dv a) (album_time dv b)) (listedAlbums dv s)) \<and>
   mset (listedAlbums dv s) = mset (filter (\<lambda>a. \<not> isDefault a) (albums s)) \<and>
   distinct (map fst (groupedPhotos lc s)) \<and>
   set (map fst (groupedPhotos lc s)) = date_key ` set (filteredPhotos lc s) \<and>
   (\<forall>d ps. (d, ps) \<in> set (groupedPhotos lc s) \<longrightarrow>
      ps = filter (\<lambda>p. date_key p = d) (filteredPhotos lc s) \<and> ps \<noteq> []) \<and>
   ((\<forall>p\<in>set (filteredPhotos lc s). dv (date_key p) \<noteq> None) \<longrightarrow>
      sorted_wrt (\<lambda>a b. newer_or_same (dv a) (dv b)) (sortedDates lc dv s)) \<and>
   mset (sortedDates lc dv s) = mset (map fst (groupedPhotos lc s))"
proof (intro conjI impI allI)
  assume "\<forall>a\<in>set (albums s). \<not> isDefault a \<longrightarrow> album_time dv a \<noteq> None"
  then have "\<forall>a\<in>set (filter (\<lambda>a. \<not> isDefault a) (albums s)). album_time dv a \<noteq> None"
    by simp
  then show "sorted_wrt (\<lambda>a b. newer_or_same (album_time dv a) (album_time dv b))
      (listedAlbums dv s)"
    unfolding listedAlbums_def by (rule sorted_js_sort)
next
  show "mset (listedAlbums dv s) = mset (filter (\<lambda>a. \<not> isDefault a) (albums s))"
    unfolding listedAlbums_def by (rule mset_js_sort)
next
  show "distinct (map fst (groupedPhotos lc s))"
    "set (map fst (groupedPhotos lc s)) = date_key ` set (filteredPhotos lc s)"
    using groupedPhotos_keys [of lc s] by blast+
next
  fix d ps
  assume "(d, ps) \<in> set (groupedPhotos lc s)"
  then show "ps = filter (\<lambda>p. date_key p = d) (filteredPhotos lc s)" "ps \<noteq> []"
    using groupedPhotos_group [of d ps lc s] by blast+
next
  assume "\<forall>p\<in>set (filteredPhotos lc s). dv (date_key p) \<noteq> None"
  then have "\<forall>d\<in>set (map fst (groupedPhotos lc s)). dv d \<noteq> None"
    using groupedPhotos_keys [of lc s] by auto
  then show "sorted_wrt (\<lambda>a b. newer_or_same (dv a) (dv b)) (sortedDates lc dv s)"
    unfolding sortedDates_def by (rule sorted_js_sort)
next
  show "mset (sortedDates lc dv s) = mset (map fst (groupedPhotos lc s))"
    unfolding sortedDates_def by (rule mset_js_sort)
qed

theorem listing_order_witness:
  "(let dv = map_of [(''2024-01-02'', 1704153600000), (''2024-01-03'', 1704240000000),
                     (''2024-01-02T10:00:00.000Z'', 1704189600000),
                     (''2024-01-03T09:00:00.000Z'', 1704272400000)];
        lc = (\<lambda>w. w);
        mk = (\<lambda>i d. \<lparr>photo_id = i, photo_name = units i, fileId = i, photo_type = ''image'',
                       photo_size = 1, photo_date = d, photo_albums = [''all'']\<rparr>);
        s = init\<lparr>photos := [mk ''id-1'' ''2024-01-02T10:00:00.000Z'',
                               mk ''id-2'' ''2024-01-03T09:00:00.000Z'',
                               mk ''id-3'' ''2024-01-02T11:30:00.000Z''],
                   albums := albums init @
                     [\<lparr>album_id = ''id-4'', album_name = units ''A'', isDefault = False,
                        album_date = Some ''2024-01-02T10:00:00.000Z''\<rparr>,
                      \<lparr>album_id = ''id-5'', album_name = units ''B'', isDefault = False,
                        album_date = Some ''2024-01-03T09:00:00.000Z''\<rparr>]\<rparr>
    in map album_id (listedAlbums dv s) = [''id-5'', ''id-4''] \<and>
       sorted_wrt (\<lambda>a b. newer_or_same (album_time dv a) (album_time dv b)) (listedAlbums dv s) \<and>
       map (\<lambda>(d, ps). (d, map photo_id ps)) (groupedPhotos lc s) =
         [(''2024-01-02'', [''id-1'', ''id-3'']), (''2024-01-03'', [''id-2''])] \<and>
       sortedDates lc dv s = [''2024-01-03'', ''2024-01-02''] \<and>
       sorted_wrt (\<lambda>a b. newer_or_same (dv a) (dv b)) (sortedDates lc dv s))"
proof -
  define dv :: "string \<Rightarrow> int option"
    where "dv = map_of [(''2024-01-02'', 1704153600000), (''2024-01-03'', 1704240000000),
                     (''2024-01-02T10:00:00.000Z'', 1704189600000),
                     (''2024-01-03T09:00:00.000Z'', 1704272400000)]"
  define lc :: "ustring \<Rightarrow> ustring" where "lc = (\<lambda>w. w)"
  define s where "s = init\<lparr>photos :=
                    [\<lparr>photo_id = ''id-1'', photo_name = units ''id-1'', fileId = ''id-1'',
                       photo_type = ''image'', photo_size = 1,
                       photo_date = ''2024-01-02T10:00:00.000Z'', photo_albums = [''all'']\<rparr>,
                     \<lparr>photo_id = ''id-2'', photo_name = units ''id-2'', fileId = ''id-2'',
                       photo_type = ''image'', photo_size = 1,
                       photo_date = ''2024-01-03T09:00:00.000Z'', photo_albums = [''all'']\<rparr>,
                     \<lparr>photo_id = ''id-3'', photo_name = units ''id-3'', fileId = ''id-3'',
                       photo_type = ''image'', photo_size = 1,
                       photo_date = ''2024-01-02T11:30:00.000Z'', photo_albums = [''all'']\<rparr>],
                   albums := albums init @
                     [\<lparr>album_id = ''id-4'', album_name = units ''A'', isDefault = False,
                        album_date = Some ''2024-01-02T10:00:00.000Z''\<rparr>,
                      \<lparr>album_id = ''id-5'', album_name = units ''B'', isDefault = False,
                        album_date = Some ''2024-01-03T09:00:00.000Z''\<rparr>]\<rparr>"
  have f: "filteredPhotos lc s = photos s"
    by (simp add: s_def filteredPhotos_def inSelectedAlbum_def matchesSearch_def init_def)
  have h1: "\<forall>a\<in>set (albums s). \<not> isDefault a \<longrightarrow> album_time dv a \<noteq> None"
    by (simp add: s_def init_def album_time_def dv_def)
  have h2: "\<forall>p\<in>set (filteredPhotos lc s). dv (date_key p) \<noteq> None"
    unfolding f by (simp add: s_def date_key_def date_part_def dv_def)
  have a: "map album_id (listedAlbums dv s) = [''id-5'', ''id-4'']"
    by (simp add: s_def init_def listedAlbums_def js_sort_def cmp_gt_def num_sub_def
        album_time_def dv_def)
  have g: "map (\<lambda>(d, ps). (d, map photo_id ps)) (groupedPhotos lc s) =
         [(''2024-01-02'', [''id-1'', ''id-3'']), (''2024-01-03'', [''id-2''])]"
    unfolding groupedPhotos_def f
    by (simp add: s_def add_to_group_def date_part_def)
  have d: "sortedDates lc dv s = [''2024-01-03'', ''2024-01-02'']"
    unfolding sortedDates_def groupedPhotos_def f
    by (simp add: s_def add_to_group_def date_part_def js_sort_def cmp_gt_def num_sub_def
        dv_def)
  from listing_order [where s = s and dv = dv and lc = lc] h1 h2
  have t: "sorted_wrt (\<lambda>a b. newer_or_same (album_time dv a) (album_time dv b)) (listedAlbums dv s)"
    "sorted_wrt (\<lambda>a b. newer_or_same (dv a) (dv b)) (sortedDates lc dv s)"
    by blast+
  show ?thesis
    unfolding Let_def dv_def [symmetric] lc_def [symmetric] s_def [symmetric]
    using a t g d by (intro conjI)
qed

subsection \<open>Renaming\<close>

lemma rename_unknown_map:
  assumes "rid \<notin> photo_id ` set ps"
  shows "map (\<lambda>p. if photo_id p = rid then p\<lparr>photo_name := n\<rparr> else p) ps = ps"
  using assms by (intro map_idI) auto

lemma putFound_unknown:
  assumes "rid \<notin> photo_id ` set ps"
  shows "putFound rid ps m = m"
proof -
  have "find (\<lambda>p. photo_id p = rid) ps = None"
    using assms by (auto simp: find_None_iff)
  then show ?thesis
    by (simp add: putFound_def)
qed

text \<open>
  C3, as the claim states it, fails: \<^verbatim>\<open>handleRename\<close> signals neither InvalidArgument nor
  NotFound. With a blank name it returns at once, and for the id of no photo it ends as a
  rename does, with the dialog closed; in both cases nothing is passed to \<^verbatim>\<open>alert\<close> or
  \<^verbatim>\<open>console.error\<close>.
\<close>

theorem rename_reports_nothing:
  "\<not> reports_error (init\<lparr>dbReady := True, isRenamingItem := Some (''id-9'', ''photo'')\<rparr>)
       (handleRename False (units ''   '')
          (init\<lparr>dbReady := True, isRenamingItem := Some (''id-9'', ''photo'')\<rparr>)) \<and>
   \<not> reports_error (init\<lparr>dbReady := True, isRenamingItem := Some (''id-9'', ''photo'')\<rparr>)
       (handleRename False (units ''new name'')
          (init\<lparr>dbReady := True, isRenamingItem := Some (''id-9'', ''photo'')\<rparr>)) \<and>
   isRenamingItem (handleRename False (units ''new name'')
          (init\<lparr>dbReady := True, isRenamingItem := Some (''id-9'', ''photo'')\<rparr>)) = None"
  by (simp add: reports_error_def handleRename_def js_trim_def is_ws_def units_def init_def Let_def)

text \<open>
  C3, amended. \<^verbatim>\<open>handleRename\<close> ignores a new name that is empty or all white space: it
  returns the state as it was, the stored name with it, and reports nothing. When the id
  to rename is the id of no photo, no photo or album record is changed, in memory or in
  the object stores; with a database and no storage failure the handler then ends as
  after a rename, closing the dialog and reporting nothing.
\<close>

theorem rename_rejections:
  "(js_trim n = [] \<longrightarrow> handleRename fault n s = s) \<and>
   (isRenamingItem s = Some (rid, ''photo'') \<and> rid \<notin> photo_id ` set (photos s) \<longrightarrow>
      store_state (handleRename fault n s) = store_state s) \<and>
   (isRenamingItem s = Some (rid, ''photo'') \<and> rid \<notin> photo_id ` set (photos s) \<and>
    js_trim n \<noteq> [] \<and> dbReady s \<and> \<not> fault \<longrightarrow>
      handleRename fault n s = s\<lparr>isRenamingItem := None\<rparr> \<and>
      \<not> reports_error s (handleRename fault n s))"
proof (intro conjI impI)
  assume "js_trim n = []"
  then show "handleRename fault n s = s"
    by (simp add: handleRename_def)
next
  assume "isRenamingItem s = Some (rid, ''photo'') \<and> rid \<notin> photo_id ` set (photos s)"
  then show "store_state (handleRename fault n s) = store_state s"
    by (simp add: handleRename_def Let_def store_state_def rename_unknown_map putFound_unknown)
next
  assume a: "isRenamingItem s = Some (rid, ''photo'') \<and> rid \<notin> photo_id ` set (photos s) \<and>
    js_trim n \<noteq> [] \<and> dbReady s \<and> \<not> fault"
  then show e: "handleRename fault n s = s\<lparr>isRenamingItem := None\<rparr>"
    by (simp add: handleRename_def Let_def rename_unknown_map putFound_unknown)
  show "\<not> reports_error s (handleRename fault n s)"
    unfolding e by (simp add: reports_error_def)
qed

theorem rename_rejections_witness:
  "(let s = (handleFileUpload True
               [\<lparr>up_file = \<lparr>file_name = units ''a.png'', file_type = ''image/png'', file_size = 3\<rparr>,
                 up_id = ''id-1'', up_now = ''2024-01-02T10:00:00.000Z'', up_fault = NoFault\<rparr>]
               init)\<lparr>isRenamingItem := Some (''id-9'', ''photo'')\<rparr>
    in js_trim [32, 9, 160, 8195] = [] \<and>
       handleRename False [32, 9, 160, 8195] s = s \<and>
       map photo_name (photos s) = [units ''a.png''] \<and>
       js_trim (units ''b.png'') \<noteq> [] \<and> dbReady s \<and>
       store_state (handleRename False (units ''b.png'') s) = store_state s \<and>
       handleRename False (units ''b.png'') s = s\<lparr>isRenamingItem := None\<rparr>)"
proof -
  define s where "s = (handleFileUpload True
               [\<lparr>up_file = \<lparr>file_name = units ''a.png'', file_type = ''image/png'', file_size = 3\<rparr>,
                 up_id = ''id-1'', up_now = ''2024-01-02T10:00:00.000Z'', up_fault = NoFault\<rparr>]
               init)\<lparr>isRenamingItem := Some (''id-9'', ''photo'')\<rparr>"
  have b: "js_trim [32, 9, 160, 8195] = []" "js_trim (units ''b.png'') \<noteq> []"
    by (simp_all add: js_trim_def is_ws_def units_def)
  have h: "isRenamingItem s = Some (''id-9'', ''photo'')" "''id-9'' \<notin> photo_id ` set (photos s)"
    "dbReady s" "map photo_name (photos s) = [units ''a.png'']"
    by (simp_all add: s_def handleFileUpload_def uploadFile_def newPhoto_def init_def)
  from rename_rejections [where n = "[32, 9, 160, 8195]" and fault = False and s = s] b(1)
  have r1: "handleRename False [32, 9, 160, 8195] s = s"
    by blast
  from rename_rejections [where n = "(units ''b.png'')" and fault = False and s = s and rid = "''id-9''"] b(2) h
  have r2: "store_state (handleRename False (units ''b.png'') s) = store_state s"
    "handleRename False (units ''b.png'') s = s\<lparr>isRenamingItem := None\<rparr>"
    by blast+
  show ?thesis
    unfolding Let_def s_def [symmetric]
    using b h(3,4) r1 r2 by (intro conjI)
qed

subsection \<open>Deleting an album\<close>

lemma putAll_member:
  "p \<in> set ps \<Longrightarrow> \<exists>q\<in>set ps. photo_id q = photo_id p \<and> putAll ps m (photo_id p) = Some q"
  unfolding putAll_def
  by (induction ps rule: rev_induct) auto

text \<open>
  C4, as the claim states it, fails in one point: \<^verbatim>\<open>handleDeleteAlbum\<close> on "all" returns
  no InvalidArgument. It returns at once, without a value, and passes nothing to
  \<^verbatim>\<open>alert\<close> or \<^verbatim>\<open>console.error\<close>.
\<close>

theorem delete_all_reports_nothing:
  "\<not> reports_error init (handleDeleteAlbum False ''all'' init) \<and>
   handleDeleteAlbum False ''all'' init = init"
  by (simp add: reports_error_def handleDeleteAlbum_def)

text \<open>
  C4, amended. \<^verbatim>\<open>handleDeleteAlbum\<close> on "all" is ignored: it returns at once, reports
  nothing and changes nothing. On any other album id it removes the album record, removes
  that id (and no other) from the albums of every photo in memory, so that the view of
  that album is empty afterwards, and when the selected view was the deleted album the
  selected view becomes "all". With a database and no storage failure the scrubbed
  records are also written to the "photos" store.
\<close>

theorem delete_album:
  "handleDeleteAlbum fault ''all'' s = s \<and>
   (a \<noteq> ''all'' \<longrightarrow>
      albums (handleDeleteAlbum fault a s) = filter (\<lambda>b. album_id b \<noteq> a) (albums s) \<and>
      map photo_id (photos (handleDeleteAlbum fault a s)) = map photo_id (photos s) \<and>
      map photo_albums (photos (handleDeleteAlbum fault a s)) =
        map (\<lambda>p. filter (\<lambda>i. i \<noteq> a) (photo_albums p)) (photos s) \<and>
      (\<forall>p\<in>set (photos (handleDeleteAlbum fault a s)). a \<notin> set (photo_albums p)) \<and>
      filteredPhotos lc ((handleDeleteAlbum fault a s)\<lparr>selectedView := a, searchTerm := []\<rparr>) = [] \<and>
      selectedView (handleDeleteAlbum fault a s) =
        (if selectedView s = a then ''all'' else selectedView s) \<and>
      (dbReady s \<and> \<not> fault \<longrightarrow>
         (\<forall>p\<in>set (photos s). \<exists>q. photoStore (handleDeleteAlbum fault a s) (photo_id p) = Some q \<and>
            a \<notin> set (photo_albums q))))"
proof (intro conjI impI)
  show "handleDeleteAlbum fault ''all'' s = s"
    by (simp add: handleDeleteAlbum_def)
next
  assume a: "a \<noteq> ''all''"
  let ?up = "map (\<lambda>p. p\<lparr>photo_albums := filter (\<lambda>i. i \<noteq> a) (photo_albums p)\<rparr>) (photos s)"
  have ph: "photos (handleDeleteAlbum fault a s) = ?up"
    using a by (simp add: handleDeleteAlbum_def Let_def)
  show "albums (handleDeleteAlbum fault a s) = filter (\<lambda>b. album_id b \<noteq> a) (albums s)"
    using a by (simp add: handleDeleteAlbum_def Let_def)
  show "map photo_id (photos (handleDeleteAlbum fault a s)) = map photo_id (photos s)"
    unfolding ph by simp
  show "map photo_albums (photos (handleDeleteAlbum fault a s)) =
        map (\<lambda>p. filter (\<lambda>i. i \<noteq> a) (photo_albums p)) (photos s)"
    unfolding ph by simp
  show gone: "\<forall>p\<in>set (photos (handleDeleteAlbum fault a s)). a \<notin> set (photo_albums p)"
    unfolding ph by auto
  show "filteredPhotos lc ((handleDeleteAlbum fault a s)\<lparr>selectedView := a, searchTerm := []\<rparr>) = []"
    using a gone by (simp add: filteredPhotos_def inSelectedAlbum_def filter_empty_conv)
  show "selectedView (handleDeleteAlbum fault a s) =
        (if selectedView s = a then ''all'' else selectedView s)"
    using a by (simp add: handleDeleteAlbum_def Let_def)
next
  assume a: "a \<noteq> ''all''" and ok: "dbReady s \<and> \<not> fault"
  let ?up = "map (\<lambda>p. p\<lparr>photo_albums := filter (\<lambda>i. i \<noteq> a) (photo_albums p)\<rparr>) (photos s)"
  have st: "photoStore (handleDeleteAlbum fault a s) = putAll ?up (photoStore s)"
    using a ok by (simp add: handleDeleteAlbum_def Let_def)
  show "\<forall>p\<in>set (photos s). \<exists>q. photoStore (handleDeleteAlbum fault a s) (photo_id p) = Some q \<and>
            a \<notin> set (photo_albums q)"
  proof
    fix p assume "p \<in> set (photos s)"
    then have "p\<lparr>photo_albums := filter (\<lambda>i. i \<noteq> a) (photo_albums p)\<rparr> \<in> set ?up"
      by simp
    from putAll_member [OF this, of "photoStore s"]
    obtain q where "q \<in> set ?up" and "putAll ?up (photoStore s) (photo_id p) = Some q"
      by auto
    then show "\<exists>q. photoStore (handleDeleteAlbum fault a s) (photo_id p) = Some q \<and>
            a \<notin> set (photo_albums q)"
      unfolding st by auto
  qed
qed
theorem delete_album_witness:
  "(let s = run [CreateAlbum False ''id-2'' ''2024-01-01T08:00:00.000Z'' (units ''Trip''),
                 SetSelectedView ''id-2'',
                 FileUpload True
                   [\<lparr>up_file = \<lparr>file_name = units ''a.png'', file_type = ''image/png'', file_size = 3\<rparr>,
                     up_id = ''id-1'', up_now = ''2024-01-02T10:00:00.000Z'', up_fault = NoFault\<rparr>]]
                init;
        s' = handleDeleteAlbum False ''id-2'' s
    in ''id-2'' \<noteq> ''all'' \<and> dbReady s \<and>
       map album_id (albums s) = [''all'', ''id-2''] \<and>
       map photo_albums (photos s) = [[''all'', ''id-2'']] \<and>
       selectedView s = ''id-2'' \<and>
       map album_id (albums s') = [''all''] \<and>
       map photo_albums (photos s') = [[''all'']] \<and>
       filteredPhotos (\<lambda>w. w) (s'\<lparr>selectedView := ''id-2'', searchTerm := []\<rparr>) = [] \<and>
       selectedView s' = ''all'' \<and>
       (\<exists>q. photoStore s' ''id-1'' = Some q \<and> ''id-2'' \<notin> set (photo_albums q)) \<and>
       handleDeleteAlbum False ''all'' s = s)"
proof -
  define s where "s = run [CreateAlbum False ''id-2'' ''2024-01-01T08:00:00.000Z'' (units ''Trip''),
                 SetSelectedView ''id-2'',
                 FileUpload True
                   [\<lparr>up_file = \<lparr>file_name = units ''a.png'', file_type = ''image/png'', file_size = 3\<rparr>,
                     up_id = ''id-1'', up_now = ''2024-01-02T10:00:00.000Z'', up_fault = NoFault\<rparr>]]
                init"
  define s' where "s' = handleDeleteAlbum False ''id-2'' s"
  have h: "''id-2'' \<noteq> ''all''" "dbReady s"
    "map album_id (albums s) = [''all'', ''id-2'']"
    "map photo_albums (photos s) = [[''all'', ''id-2'']]"
    "selectedView s = ''id-2''" "map photo_id (photos s) = [''id-1'']"
    by (simp_all add: s_def run_def init_def handleCreateAlbum_def js_trim_def is_ws_def units_def
        handleFileUpload_def uploadFile_def newPhoto_def Let_def)
  note t = delete_album [where fault = False and s = s and a = "''id-2''" and lc = "\<lambda>w. w",
      folded s'_def]
  from t h(1) have a: "albums s' = filter (\<lambda>b. album_id b \<noteq> ''id-2'') (albums s)"
    "map photo_albums (photos s') = map (\<lambda>p. filter (\<lambda>i. i \<noteq> ''id-2'') (photo_albums p)) (photos s)"
    "filteredPhotos (\<lambda>w. w) (s'\<lparr>selectedView := ''id-2'', searchTerm := []\<rparr>) = []"
    "selectedView s' = (if selectedView s = ''id-2'' then ''all'' else selectedView s)"
    by blast+
  from t h(1,2) have st: "\<forall>p\<in>set (photos s). \<exists>q. photoStore s' (photo_id p) = Some q \<and>
            ''id-2'' \<notin> set (photo_albums q)"
    by blast
  have b1: "map album_id (albums s') = [''all'']"
    unfolding a(1) using h(3) by (auto simp: filter_map comp_def map_eq_Cons_conv)
  have b2: "map photo_albums (photos s') = [[''all'']]"
    unfolding a(2) using h(4) by (auto simp: map_eq_Cons_conv)
  have b3: "selectedView s' = ''all''"
    unfolding a(4) using h(5) by simp
  from h(6) obtain p where "p \<in> set (photos s)" and "photo_id p = ''id-1''"
    by (auto simp: map_eq_Cons_conv)
  with st have b4: "\<exists>q. photoStore s' ''id-1'' = Some q \<and> ''id-2'' \<notin> set (photo_albums q)"
    by force
  from delete_album [where fault = False and s = s and a = "''id-2''"]
  have b5: "handleDeleteAlbum False ''all'' s = s"
    by blast
  show ?thesis
    unfolding Let_def s_def [symmetric] s'_def [symmetric]
    using h(1-5) b1 b2 a(3) b3 b4 b5 by (intro conjI)
qed

subsection \<open>Deleting a photo evicts its object URL\<close>

lemma evict_revoked_mono: "set (revoked s) \<subseteq> set (revoked (evict i s))"
  by (auto simp: evict_def split: option.splits)

lemma fold_evict_revoked_mono: "set (revoked s) \<subseteq> set (revoked (fold evict ids s))"
proof (induction ids arbitrary: s)
  case Nil
  then show ?case by simp
next
  case (Cons i ids)
  have "set (revoked s) \<subseteq> set (revoked (evict i s))"
    by (rule evict_revoked_mono)
  also have "\<dots> \<subseteq> set (revoked (fold evict ids (evict i s)))"
    by (rule Cons.IH)
  finally show ?case by simp
qed

lemma fold_evict_dbReady [simp]: "dbReady (fold evict ids s) = dbReady s"
  by (induction ids arbitrary: s) (simp_all add: evict_def split: option.splits)

lemma fold_evict_revokes:
  "urlCache s k = Some u \<Longrightarrow> k \<in> set ids \<Longrightarrow> u \<in> set (revoked (fold evict ids s))"
proof (induction ids arbitrary: s)
  case Nil
  then show ?case by simp
next
  case (Cons i ids)
  show ?case
  proof (cases "k = i")
    case True
    with Cons.prems have "u \<in> set (revoked (evict i s))"
      by (simp add: evict_def)
    with fold_evict_revoked_mono [of "evict i s" ids] show ?thesis
      by auto
  next
    case False
    with Cons.prems have "urlCache (evict i s) k = Some u" "k \<in> set ids"
      by (simp_all add: evict_urlCache)
    then show ?thesis
      using Cons.IH by simp
  qed
qed

text \<open>
  C5, as the claim states it, fails in one point: the later \<^verbatim>\<open>loadFileUrl\<close> returns no
  NotFound. After a photo is uploaded, its object URL cached and the photo deleted,
  \<^verbatim>\<open>loadFileUrl\<close> for its blob returns the path "/placeholder.svg", the value it also
  returns for an empty id, and passes nothing to \<^verbatim>\<open>alert\<close> or \<^verbatim>\<open>console.error\<close>.
\<close>

theorem resolve_after_delete_is_placeholder:
  "fst (loadFileUrl True ''blob:2'' ''id-1''
      (handleDeletePhotos DelOk [''id-1'']
        (run [FileUpload True
                [\<lparr>up_file = \<lparr>file_name = units ''a.png'', file_type = ''image/png'', file_size = 3\<rparr>,
                  up_id = ''id-1'', up_now = ''2024-01-02T10:00:00.000Z'', up_fault = NoFault\<rparr>],
              LoadFileUrl True ''blob:1'' ''id-1''] init))) = Some ''/placeholder.svg'' \<and>
   \<not> reports_error
      (handleDeletePhotos DelOk [''id-1'']
        (run [FileUpload True
                [\<lparr>up_file = \<lparr>file_name = units ''a.png'', file_type = ''image/png'', file_size = 3\<rparr>,
                  up_id = ''id-1'', up_now = ''2024-01-02T10:00:00.000Z'', up_fault = NoFault\<rparr>],
              LoadFileUrl True ''blob:1'' ''id-1''] init))
      (snd (loadFileUrl True ''blob:2'' ''id-1''
        (handleDeletePhotos DelOk [''id-1'']
          (run [FileUpload True
                  [\<lparr>up_file = \<lparr>file_name = units ''a.png'', file_type = ''image/png'', file_size = 3\<rparr>,
                    up_id = ''id-1'', up_now = ''2024-01-02T10:00:00.000Z'', up_fault = NoFault\<rparr>],
                LoadFileUrl True ''blob:1'' ''id-1''] init)))) \<and>
   fst (loadFileUrl True ''blob:2'' []
      (handleDeletePhotos DelOk [''id-1'']
        (run [FileUpload True
                [\<lparr>up_file = \<lparr>file_name = units ''a.png'', file_type = ''image/png'', file_size = 3\<rparr>,
                  up_id = ''id-1'', up_now = ''2024-01-02T10:00:00.000Z'', up_fault = NoFault\<rparr>],
              LoadFileUrl True ''blob:1'' ''id-1''] init))) = Some ''/placeholder.svg''"
  by (simp add: reports_error_def run_def init_def handleFileUpload_def uploadFile_def
      newPhoto_def loadFileUrl_def handleDeletePhotos_def deleteAll_def evict_def)

text \<open>
  C5, amended. After a successful \<^verbatim>\<open>handleDeletePhotos\<close> that names the id of a photo
  (whose \<^verbatim>\<open>fileId\<close> is its id, as for every record the component makes), the URL cache
  has no entry for the blob of the photo and the object URL it held has been revoked. A
  later \<^verbatim>\<open>loadFileUrl\<close> for that blob finds neither a cache entry nor a blob: it returns
  the path "/placeholder.svg" and not the stale URL, caches nothing and reports nothing;
  no NotFound is signalled. (When the read itself fails the promise is rejected; no URL
  is returned then either.)
\<close>

theorem delete_evicts_handle:
  assumes "dbReady s" and "ids_agree s" and "p \<in> set (photos s)" and "photo_id p \<in> set ids"
  shows "let s' = handleDeletePhotos DelOk ids s in
     urlCache s' (fileId p) = None \<and>
     (\<forall>u. urlCache s (fileId p) = Some u \<longrightarrow> u \<in> set (revoked s')) \<and>
     loadFileUrl True newUrl (fileId p) s' = (Some ''/placeholder.svg'', s') \<and>
     \<not> reports_error s' (snd (loadFileUrl True newUrl (fileId p) s')) \<and>
     loadFileUrl False newUrl (fileId p) s' =
       (if fileId p = [] then Some ''/placeholder.svg'' else None, s')"
proof -
  from assms(2,3) have e: "fileId p = photo_id p"
    by (simp add: ids_agree_def)
  let ?s' = "handleDeletePhotos DelOk ids s"
  have c: "urlCache ?s' (fileId p) = None"
    using assms(1,4) e by (simp add: handleDeletePhotos_def fold_evict_urlCache)
  have f: "fileStore ?s' (fileId p) = None"
    using assms(1,4) e by (simp add: handleDeletePhotos_def deleteAll_apply)
  have d: "dbReady ?s'"
    using assms(1) by (simp add: handleDeletePhotos_def)
  have r: "\<forall>u. urlCache s (fileId p) = Some u \<longrightarrow> u \<in> set (revoked ?s')"
  proof (intro allI impI)
    fix u assume "urlCache s (fileId p) = Some u"
    then have "urlCache (s\<lparr>fileStore := deleteAll ids (fileStore s),
        photoStore := deleteAll ids (photoStore s)\<rparr>) (fileId p) = Some u"
      by simp
    from fold_evict_revokes [OF this, of ids] assms(4) e
    show "u \<in> set (revoked ?s')"
      using assms(1) by (simp add: handleDeletePhotos_def)
  qed
  have l: "loadFileUrl True newUrl (fileId p) ?s' = (Some ''/placeholder.svg'', ?s')"
    "loadFileUrl False newUrl (fileId p) ?s' =
       (if fileId p = [] then Some ''/placeholder.svg'' else None, ?s')"
    using c f d by (simp_all add: loadFileUrl_def)
  have n: "\<not> reports_error ?s' (snd (loadFileUrl True newUrl (fileId p) ?s'))"
    unfolding l(1) by (simp add: reports_error_def)
  from c r l n show ?thesis
    unfolding Let_def by blast
qed

theorem delete_evicts_handle_witness:
  "(let s = run [FileUpload True
                   [\<lparr>up_file = \<lparr>file_name = units ''a.png'', file_type = ''image/png'', file_size = 3\<rparr>,
                     up_id = ''id-1'', up_now = ''2024-01-02T10:00:00.000Z'', up_fault = NoFault\<rparr>],
                 LoadFileUrl True ''blob:1'' ''id-1''] init;
        s' = handleDeletePhotos DelOk [''id-1''] s
    in dbReady s \<and> ids_agree s \<and> map fileId (photos s) = [''id-1''] \<and>
       urlCache s ''id-1'' = Some ''blob:1'' \<and>
       fst (loadFileUrl True ''blob:2'' ''id-1'' s) = Some ''blob:1'' \<and>
       urlCache s' ''id-1'' = None \<and> ''blob:1'' \<in> set (revoked s') \<and>
       loadFileUrl True ''blob:2'' ''id-1'' s' = (Some ''/placeholder.svg'', s'))"
proof -
  define s where "s = run [FileUpload True
                   [\<lparr>up_file = \<lparr>file_name = units ''a.png'', file_type = ''image/png'', file_size = 3\<rparr>,
                     up_id = ''id-1'', up_now = ''2024-01-02T10:00:00.000Z'', up_fault = NoFault\<rparr>],
                 LoadFileUrl True ''blob:1'' ''id-1''] init"
  define s' where "s' = handleDeletePhotos DelOk [''id-1''] s"
  have i: "ids_agree s"
    unfolding s_def by (rule run_ids [OF ids_agree_init])
  have h: "dbReady s" "map fileId (photos s) = [''id-1'']" "map photo_id (photos s) = [''id-1'']"
    "urlCache s ''id-1'' = Some ''blob:1''"
    "fst (loadFileUrl True ''blob:2'' ''id-1'' s) = Some ''blob:1''"
    by (simp_all add: s_def run_def init_def handleFileUpload_def uploadFile_def newPhoto_def
        loadFileUrl_def)
  from h(2,3) obtain p where p: "p \<in> set (photos s)" "photo_id p = ''id-1''" "fileId p = ''id-1''"
    by (auto simp: map_eq_Cons_conv)
  then have m: "photo_id p \<in> set [''id-1'']"
    by simp
  from delete_evicts_handle [OF h(1) i p(1) m, of "''blob:2''", folded s'_def] h(4)
  have a: "urlCache s' ''id-1'' = None" "''blob:1'' \<in> set (revoked s')"
    "loadFileUrl True ''blob:2'' ''id-1'' s' = (Some ''/placeholder.svg'', s')"
    unfolding Let_def p(3) by blast+
  show ?thesis
    unfolding Let_def s_def [symmetric] s'_def [symmetric]
    using h(1) i h(2,4,5) a by (intro conjI)
qed

end
